(* ===== verification/Prelude.thy ===== *)
theory Prelude
  imports Main "HOL-Library.Sublist"
begin

text \<open>
  Shared vocabulary of the development for \<^verbatim>\<open>src/agps.py\<close>.  Python 2 \<^verbatim>\<open>str\<close>
  values are byte strings, so they are modelled as \<open>char list\<close> (a HOL \<open>char\<close> is
  exactly one byte).  The uncaught exceptions the script can raise are the constructors
  of \<open>py_error\<close>; the console is the list of lines printed so far, as in a model of
  \<^verbatim>\<open>STDOUT\<close> that \<^verbatim>\<open>print\<close> appends to.  The lemmas here are the list facts
  on substrings, prefixes and segment streams that several components share.
\<close>

type_synonym bytes = "char list"

text \<open>The lines printed to standard output so far, oldest first.\<close>
type_synonym console = "string list"

text \<open>
  The exceptions that end the script: \<^verbatim>\<open>socket.error\<close> from \<^verbatim>\<open>sock.connect\<close>,
  \<^verbatim>\<open>ValueError\<close> from \<^verbatim>\<open>str.index\<close> and \<^verbatim>\<open>serial.SerialException\<close> from
  opening the device.
\<close>
datatype py_error = SocketError | ValueError | SerialException

text \<open>The Python 2 \<^verbatim>\<open>print\<close> statement: one more line on the console.\<close>
definition py_print :: "string \<Rightarrow> console \<Rightarrow> console" where
  "py_print s out = out @ [s]"

named_theorems stream_simps "evaluation rules for the segment streams of the network and the line"

subsection \<open>Substrings and prefixes\<close>

lemma prefix_drop_sublist: "prefix d (drop k s) \<Longrightarrow> sublist d s"
  by (metis append_take_drop_id prefix_def sublist_appendI)

lemma sublist_iff_prefix_drop: "sublist d s \<longleftrightarrow> (\<exists>k \<le> length s. prefix d (drop k s))"
proof
  assume "sublist d s"
  then obtain ps ss where s: "s = ps @ d @ ss" by (auto simp: sublist_def)
  then have "prefix d (drop (length ps) s)" by simp
  moreover have "length ps \<le> length s" using s by simp
  ultimately show "\<exists>k \<le> length s. prefix d (drop k s)" by blast
next
  assume "\<exists>k \<le> length s. prefix d (drop k s)"
  then show "sublist d s" by (blast intro: prefix_drop_sublist)
qed

lemma prefix_append_long:
  "length d \<le> length h \<Longrightarrow> prefix d (h @ t) \<longleftrightarrow> prefix d h"
  by (auto simp: prefix_append)

lemma last_dropWhile: "dropWhile P xs \<noteq> [] \<Longrightarrow> last (dropWhile P xs) = last xs"
  by (induction xs) auto

subsection \<open>Segment streams\<close>

text \<open>
  A network reply and the serial line are modelled as streams \<open>nat \<Rightarrow> bytes\<close> of the
  segments delivered at successive calls; the bytes delivered from call \<open>i\<close> to call
  \<open>j\<close> (exclusive) are \<open>concat (map f [i..<j])\<close>.
\<close>

lemma concat_map_upt_step [stream_simps]:
  "i < j \<Longrightarrow> concat (map f [i..<j]) = f i @ concat (map f [Suc i..<j])"
  by (simp add: upt_conv_Cons)

end
