(* ===== verification/PyStr.thy ===== *)
theory PyStr
  imports Prelude
begin

text \<open>
  The Python 2 \<^verbatim>\<open>str\<close> methods the script calls: \<^verbatim>\<open>str.index\<close> (line 22),
  \<^verbatim>\<open>str.startswith\<close> (line 43) and \<^verbatim>\<open>str.strip\<close> (line 44), each written as the
  CPython implementation computes it, with its specification proved: \<open>py_index\<close>
  returns the first occurrence or raises \<^verbatim>\<open>ValueError\<close>, and it agrees with a
  reference scan of all positions; \<open>strip\<close> removes exactly the whitespace at both ends.
  \<open>split_on\<close> (\<^verbatim>\<open>str.split\<close>) is not called by the script: the
  specification of the relay's framing is stated with it.
\<close>

subsection \<open>\<^verbatim>\<open>str.index\<close>\<close>

text \<open>The scan of CPython's search: the first position \<open>i\<close> where \<open>sub\<close> starts.\<close>
fun find_from :: "bytes \<Rightarrow> bytes \<Rightarrow> nat \<Rightarrow> nat option" where
  "find_from sub [] i = (if sub = [] then Some i else None)"
| "find_from sub (c # cs) i =
     (if prefix sub (c # cs) then Some i else find_from sub cs (Suc i))"

text \<open>\<^verbatim>\<open>s.index(sub)\<close>: the position, or \<^verbatim>\<open>ValueError: substring not found\<close>.\<close>
definition py_index :: "bytes \<Rightarrow> bytes \<Rightarrow> py_error + nat" where
  "py_index s sub = (case find_from sub s 0 of None \<Rightarrow> Inl ValueError | Some k \<Rightarrow> Inr k)"

text \<open>The reference: try every position \<open>0 \<dots> len(s)\<close> in turn.\<close>
definition first_match :: "bytes \<Rightarrow> bytes \<Rightarrow> nat option" where
  "first_match sub s = List.find (\<lambda>k. prefix sub (drop k s)) [0..<Suc (length s)]"

subsection \<open>\<^verbatim>\<open>str.startswith\<close> and \<^verbatim>\<open>str.strip\<close>\<close>

text \<open>CPython compares the first \<open>len(p)\<close> bytes of \<open>s\<close> with \<open>p\<close>.\<close>
definition startswith :: "bytes \<Rightarrow> bytes \<Rightarrow> bool" where
  "startswith s p \<longleftrightarrow> length p \<le> length s \<and> take (length p) s = p"

text \<open>\<^verbatim>\<open>isspace\<close> of the C locale on a byte: space, \<^verbatim>\<open>\t \n \v \f \r\<close>.\<close>
definition py_isspace :: "char \<Rightarrow> bool" where
  "py_isspace c \<longleftrightarrow> c = CHR '' '' \<or> (9 \<le> (of_char c :: nat) \<and> (of_char c :: nat) \<le> 13)"

text \<open>\<^verbatim>\<open>s.strip()\<close>: skip whitespace from the left, then from the right.\<close>
definition strip :: "bytes \<Rightarrow> bytes" where
  "strip s = rev (dropWhile py_isspace (rev (dropWhile py_isspace s)))"

subsection \<open>\<^verbatim>\<open>str.split\<close> on a one-byte separator\<close>

fun split_on :: "char \<Rightarrow> bytes \<Rightarrow> bytes list" where
  "split_on d [] = [[]]"
| "split_on d (c # cs) =
     (let r = split_on d cs in if c = d then [] # r else (c # hd r) # tl r)"

subsection \<open>Properties of \<^verbatim>\<open>str.index\<close>\<close>

lemma find_from_Suc: "find_from sub s (Suc i) = map_option Suc (find_from sub s i)"
  by (induction s arbitrary: i) auto

lemma find_from_Some_iff:
  "find_from sub s 0 = Some k \<longleftrightarrow> prefix sub (drop k s) \<and> (\<forall>j<k. \<not> prefix sub (drop j s))"
proof (induction s arbitrary: k)
  case Nil
  then show ?case by (cases k) auto
next
  case (Cons c cs)
  show ?case
  proof (cases k)
    case 0
    then show ?thesis by (simp add: find_from_Suc)
  next
    case (Suc k')
    then show ?thesis
      using Cons.IH [of k'] by (auto simp: find_from_Suc less_Suc_eq_0_disj)
  qed
qed

lemma find_from_None_iff: "find_from sub s i = None \<longleftrightarrow> \<not> sublist sub s"
  by (induction s arbitrary: i) (auto simp: sublist_Cons_right)

lemma py_index_Inr:
  "py_index s sub = Inr k \<longleftrightarrow> prefix sub (drop k s) \<and> (\<forall>j<k. \<not> prefix sub (drop j s))"
  by (auto simp: py_index_def find_from_Some_iff [symmetric] split: option.splits)

lemma py_index_Inl: "py_index s sub = Inl e \<longleftrightarrow> e = ValueError \<and> \<not> sublist sub s"
  using find_from_None_iff [of sub s 0] by (auto simp: py_index_def split: option.splits)

lemma no_match_before:
  assumes "d \<noteq> []" and "s = h @ d @ b"
  shows "(\<forall>j < length h. \<not> prefix d (drop j s)) \<longleftrightarrow> \<not> sublist d (h @ butlast d)"
proof
  assume none: "\<forall>j < length h. \<not> prefix d (drop j s)"
  show "\<not> sublist d (h @ butlast d)"
  proof
    assume "sublist d (h @ butlast d)"
    then obtain p where p: "p \<le> length (h @ butlast d)" "prefix d (drop p (h @ butlast d))"
      by (auto simp: sublist_iff_prefix_drop)
    then have "length d \<le> length (h @ butlast d) - p" by (auto dest: prefix_length_le)
    with assms(1) have "p < length h" by (cases d rule: rev_cases) auto
    moreover have "prefix d (drop p s)"
    proof -
      have "s = (h @ butlast d) @ ([last d] @ b)" using assms by simp
      then have eq: "drop p s = drop p (h @ butlast d) @ ([last d] @ b)"
        using p(1) by (simp only: drop_append) simp
      show ?thesis unfolding eq by (rule prefix_prefix [OF p(2)])
    qed
    ultimately show False using none by blast
  qed
next
  assume nosub: "\<not> sublist d (h @ butlast d)"
  show "\<forall>j < length h. \<not> prefix d (drop j s)"
  proof (intro allI impI notI)
    fix j assume j: "j < length h" and pre: "prefix d (drop j s)"
    have split: "drop j s = drop j (h @ butlast d) @ [last d] @ b" using assms j by simp
    have "length d \<le> length (drop j (h @ butlast d))" using j assms(1) by simp
    then have "prefix d (drop j (h @ butlast d))"
      using pre split prefix_append_long by metis
    then show False using nosub by (blast intro: prefix_drop_sublist)
  qed
qed

lemma py_index_split:
  assumes "d \<noteq> []"
  shows "py_index s d = Inr k \<longleftrightarrow>
           (\<exists>h b. s = h @ d @ b \<and> length h = k \<and> \<not> sublist d (h @ butlast d))"
proof
  assume "py_index s d = Inr k"
  then have pre: "prefix d (drop k s)" and first: "\<forall>j<k. \<not> prefix d (drop j s)"
    by (auto simp: py_index_Inr)
  then obtain b where b: "drop k s = d @ b" by (auto simp: prefix_def)
  with assms have "k < length s" by (metis Nil_is_append_conv drop_eq_Nil not_le)
  then have len: "length (take k s) = k" by simp
  have s: "s = take k s @ d @ b" using b by (metis append_take_drop_id)
  have "\<not> sublist d (take k s @ butlast d)"
    using no_match_before [OF assms s] first len by simp
  with s len show "\<exists>h b. s = h @ d @ b \<and> length h = k \<and> \<not> sublist d (h @ butlast d)"
    by blast
next
  assume "\<exists>h b. s = h @ d @ b \<and> length h = k \<and> \<not> sublist d (h @ butlast d)"
  then obtain h b where s: "s = h @ d @ b" and k: "length h = k"
    and nosub: "\<not> sublist d (h @ butlast d)" by blast
  have "prefix d (drop k s)" using s k by simp
  moreover have "\<forall>j<k. \<not> prefix d (drop j s)"
    using no_match_before [OF assms s] nosub k by simp
  ultimately show "py_index s d = Inr k" by (simp add: py_index_Inr)
qed

lemma startswith_prefix: "startswith s p \<longleftrightarrow> prefix p s"
  by (metis append_eq_conv_conj prefix_def startswith_def take_all_iff prefix_length_le)

lemma strip_decomp:
  "\<exists>a b. s = a @ strip s @ b \<and> (\<forall>c \<in> set a. py_isspace c) \<and> (\<forall>c \<in> set b. py_isspace c)"
proof -
  let ?t = "dropWhile py_isspace s"
  let ?a = "takeWhile py_isspace s"
  let ?b = "rev (takeWhile py_isspace (rev ?t))"
  have "?t = strip s @ ?b"
    by (metis rev_append rev_rev_ident strip_def takeWhile_dropWhile_id)
  then have "s = ?a @ strip s @ ?b"
    by (metis takeWhile_dropWhile_id)
  moreover have "\<forall>c \<in> set ?a. py_isspace c" by (auto dest: set_takeWhileD)
  moreover have "\<forall>c \<in> set ?b. py_isspace c" by (auto dest: set_takeWhileD)
  ultimately show ?thesis by blast
qed

lemma strip_ends:
  "strip s \<noteq> [] \<Longrightarrow> \<not> py_isspace (hd (strip s)) \<and> \<not> py_isspace (last (strip s))"
proof -
  assume ne: "strip s \<noteq> []"
  let ?t = "dropWhile py_isspace s"
  have ne': "dropWhile py_isspace (rev ?t) \<noteq> []" using ne by (simp add: strip_def)
  have "last (strip s) = hd (dropWhile py_isspace (rev ?t))"
    using ne' by (simp add: strip_def last_rev)
  then have l: "\<not> py_isspace (last (strip s))" using ne' by (simp add: hd_dropWhile)
  have "hd (strip s) = last (dropWhile py_isspace (rev ?t))"
    using ne' by (simp add: strip_def hd_rev)
  also have "\<dots> = hd ?t" using ne' by (simp add: last_dropWhile last_rev)
  finally have "\<not> py_isspace (hd (strip s))"
    using ne' by (metis Nil_is_rev_conv dropWhile.simps(1) hd_dropWhile)
  with l show ?thesis by blast
qed

lemma strip_idem: "strip (strip s) = strip s"
proof (cases "strip s = []")
  case True
  have "strip [] = []" by (simp add: strip_def)
  with True show ?thesis by simp
next
  case False
  then have "\<not> py_isspace (hd (strip s))" "\<not> py_isspace (last (strip s))"
    using strip_ends by blast+
  moreover have "dropWhile py_isspace (strip s) = strip s"
    using False calculation by (simp add: dropWhile_eq_self_iff)
  moreover have "dropWhile py_isspace (rev (strip s)) = rev (strip s)"
    using False calculation by (simp add: dropWhile_eq_self_iff hd_rev)
  ultimately show ?thesis by (simp only: strip_def [of "strip s"] rev_rev_ident)
qed

lemma strip_keeps_prefix:
  assumes "prefix p s" "p \<noteq> []" "\<not> py_isspace (hd p)" "\<not> py_isspace (last p)"
  shows "prefix p (strip s)"
proof -
  obtain z where s: "s = p @ z" using assms(1) by (auto simp: prefix_def)
  have "dropWhile py_isspace s = s" using assms(2,3) s by (simp add: dropWhile_eq_self_iff)
  moreover have "dropWhile py_isspace (rev p) = rev p"
    using assms(2,4) by (simp add: dropWhile_eq_self_iff hd_rev)
  then have "\<exists>w. dropWhile py_isspace (rev z @ rev p) = w @ rev p"
    by (auto simp: dropWhile_append)
  ultimately show ?thesis using s by (auto simp: strip_def)
qed

lemma split_on_notin: "d \<notin> set x \<Longrightarrow> split_on d x = [x]"
  by (induction x) auto

lemma split_on_ne: "split_on d s \<noteq> []"
  by (induction s) (auto simp: Let_def)

lemma split_on_snoc:
  "split_on d (s @ [c]) =
     (if c = d then split_on d s @ [[]]
      else butlast (split_on d s) @ [last (split_on d s) @ [c]])"
proof (induction s)
  case Nil
  then show ?case by simp
next
  case (Cons a s)
  then show ?case
    using split_on_ne [of d s]
    by (cases "split_on d s" rule: remdups_adj.cases) (auto simp: Let_def)
qed

subsection \<open>Properties of the string primitives\<close>

text \<open>
  The search of \<^verbatim>\<open>str.index\<close> agrees with the reference that tries every
  position \<open>0 \<dots> len(s)\<close> in turn and takes the first where the substring starts.
\<close>
lemma find_from_first_match: "find_from sub s 0 = first_match sub s"
proof (cases "first_match sub s")
  case None
  have "\<not> prefix sub (drop k s)" if "k \<le> length s" for k
  proof -
    from that have "k \<in> set [0..<Suc (length s)]" by auto
    with None show ?thesis unfolding first_match_def find_None_iff by blast
  qed
  then have "\<forall>k \<le> length s. \<not> prefix sub (drop k s)" by blast
  with None show ?thesis
    by (simp add: find_from_None_iff sublist_iff_prefix_drop)
next
  case (Some k)
  then have "prefix sub (drop k s) \<and> (\<forall>j<k. \<not> prefix sub (drop j s))"
    by (auto simp: first_match_def find_Some_iff simp del: upt_Suc)
  with Some show ?thesis
    by (simp add: find_from_Some_iff)
qed


end
