(* ===== verification/Fetcher.thy ===== *)
theory Fetcher
  imports PyStr
begin

text \<open>
  The AGPS fetcher, lines 4--20 of \<^verbatim>\<open>src/agps.py\<close>: connect to the u-blox server,
  send the request with one \<^verbatim>\<open>sock.send\<close>, and read with \<^verbatim>\<open>sock.recv(1024)\<close> until
  a call returns the empty string, concatenating everything into \<^verbatim>\<open>data\<close>.
  The lemmas show what the loop returns, that it returns exactly when the server
  closes the connection, and that the fetch never looks at the count \<^verbatim>\<open>send\<close>
  returns.
\<close>

subsection \<open>Constants of the script\<close>

definition address :: string where
  "address = ''agps.u-blox.com''"

definition port :: nat where
  "port = 46434"

definition request :: bytes where
  "request = ''cmd=full;user=xxx@xxx.xx;pwd=xxx;lat=50.0;lon=14.3;pacc=10000''"

definition recv_bufsize :: nat where
  "recv_bufsize = 1024"

subsection \<open>The socket\<close>

text \<open>
  The socket object together with the part of the world it talks to.  The network is
  an environment the script does not control: \<open>reachable\<close> says whether a connection
  to a host and port succeeds, \<open>accept_limit\<close> how many bytes the kernel takes at a
  \<^verbatim>\<open>send\<close>, and \<open>segments i\<close> what the \<open>i\<close>-th \<^verbatim>\<open>recv\<close> call returns; the
  empty string there is the peer closing the connection.  \<open>peer\<close>, \<open>sent\<close> and
  \<open>nrecv\<close> are the state the script's calls change.
\<close>
record socket =
  reachable :: "string \<Rightarrow> nat \<Rightarrow> bool"
  accept_limit :: nat
  segments :: "nat \<Rightarrow> bytes"
  peer :: "(string \<times> nat) option"
  sent :: bytes
  nrecv :: nat

text \<open>\<^verbatim>\<open>sock.connect((address, port))\<close>: \<^verbatim>\<open>socket.error\<close> when the server cannot be reached.\<close>
definition sock_connect :: "string \<times> nat \<Rightarrow> socket \<Rightarrow> py_error + socket" where
  "sock_connect addr s =
     (if reachable s (fst addr) (snd addr) then Inr (s\<lparr>peer := Some addr\<rparr>)
      else Inl SocketError)"

text \<open>\<^verbatim>\<open>sock.send(msg)\<close>: the kernel takes a prefix of \<open>msg\<close> and returns its length.\<close>
definition sock_send :: "bytes \<Rightarrow> socket \<Rightarrow> nat \<times> socket" where
  "sock_send msg s =
     (let n = min (accept_limit s) (length msg) in (n, s\<lparr>sent := sent s @ take n msg\<rparr>))"

text \<open>
  \<^verbatim>\<open>sock.recv(bufsize)\<close>: the next segment, never more than \<open>bufsize\<close> bytes.
  \<open>segments i\<close> stands for the chunk the \<open>i\<close>-th call returns, so every behaviour
  of a TCP stream read with \<^verbatim>\<open>recv(1024)\<close> is a stream of segments of at most 1024
  bytes; for a longer segment the model drops the excess, where the kernel would keep
  it for the next call.  The theorems on the returned data therefore assume
  segments of at most \<open>recv_bufsize\<close> bytes.
\<close>
definition sock_recv :: "nat \<Rightarrow> socket \<Rightarrow> bytes \<times> socket" where
  "sock_recv bufsize s = (take bufsize (segments s (nrecv s)), s\<lparr>nrecv := Suc (nrecv s)\<rparr>)"

subsection \<open>The receive loop\<close>

text \<open>
  \<^verbatim>\<open>while buffer: buffer = sock.recv(1024); if buffer: data += buffer\<close>.  The flag is
  the truth value of \<^verbatim>\<open>buffer\<close> (\<^verbatim>\<open>True\<close> at the start, then whether the last
  segment was non-empty).  The loop ends only when the peer closes, so it is a
  \<^theory_text>\<open>partial_function\<close> in the option monad: \<open>None\<close> is blocking for ever.
\<close>
partial_function (option) recv_loop :: "bool \<Rightarrow> bytes \<Rightarrow> socket \<Rightarrow> (bytes \<times> socket) option" where
  "recv_loop buffer data s =
     (if buffer then
        (let (b, s') = sock_recv recv_bufsize s
         in recv_loop (b \<noteq> []) (if b \<noteq> [] then data @ b else data) s')
      else Some (data, s))"

text \<open>Lines 4--20 in order: the progress messages, connect, send, receive.\<close>
definition agps_fetch :: "socket \<Rightarrow> console \<Rightarrow> ((py_error + bytes) \<times> socket \<times> console) option" where
  "agps_fetch s out =
     (let out1 = py_print ''Connecting to u-blox'' out
      in case sock_connect (address, port) s of
           Inl e \<Rightarrow> Some (Inl e, s, out1)
         | Inr s1 \<Rightarrow>
             (let out2 = py_print ''Sending the request'' (py_print ''Connection established'' out1);
                  (_, s2) = sock_send request s1
              in map_option (\<lambda>(data, s3). (Inr data, s3, out2)) (recv_loop True [] s2)))"

subsection \<open>Properties of the receive loop\<close>

lemma recv_loop_step:
  "recv_loop True data s =
     (let b = take recv_bufsize (segments s (nrecv s))
      in recv_loop (b \<noteq> []) (if b \<noteq> [] then data @ b else data) (s\<lparr>nrecv := Suc (nrecv s)\<rparr>))"
  by (simp add: recv_loop.simps [of True] sock_recv_def Let_def)

lemma recv_loop_eof [stream_simps]:
  "segments s (nrecv s) = [] \<Longrightarrow> recv_loop True data s = Some (data, s\<lparr>nrecv := Suc (nrecv s)\<rparr>)"
  by (simp add: recv_loop_step recv_loop.simps [of False])

lemma recv_loop_stop [stream_simps]: "recv_loop False data s = Some (data, s)"
  by (simp add: recv_loop.simps [of False])

lemma recv_loop_next:
  "take recv_bufsize (segments s (nrecv s)) = b \<Longrightarrow> b \<noteq> [] \<Longrightarrow>
   recv_loop True data s = recv_loop True (data @ b) (s\<lparr>nrecv := Suc (nrecv s)\<rparr>)"
  by (simp add: recv_loop_step)

lemma recv_loop_result:
  assumes "nrecv s \<le> j" and "segments s j = []"
    and "\<forall>k. nrecv s \<le> k \<and> k < j \<longrightarrow> segments s k \<noteq> []"
    and "\<forall>k. length (segments s k) \<le> recv_bufsize"
  shows "recv_loop True data s =
           Some (data @ concat (map (segments s) [nrecv s..<j]), s\<lparr>nrecv := Suc j\<rparr>)"
  using assms
proof (induction "j - nrecv s" arbitrary: s data)
  case 0
  then have "nrecv s = j" by simp
  with "0.prems"(2) show ?case
    by (simp add: recv_loop_step stream_simps)
next
  case (Suc n)
  let ?b = "segments s (nrecv s)"
  let ?s' = "s\<lparr>nrecv := Suc (nrecv s)\<rparr>"
  have lt: "nrecv s < j" using Suc.hyps by simp
  then have ne: "?b \<noteq> []" using Suc.prems(3) by simp
  have tk: "take recv_bufsize ?b = ?b" using Suc.prems(4) by simp
  have "recv_loop True (data @ ?b) ?s' =
          Some ((data @ ?b) @ concat (map (segments s) [Suc (nrecv s)..<j]), ?s'\<lparr>nrecv := Suc j\<rparr>)"
    using Suc.hyps(1) [of ?s' "data @ ?b"] Suc.hyps(2) Suc.prems lt by simp
  then show ?case
    using lt ne tk by (simp add: recv_loop_step stream_simps)
qed

lemma recv_loop_terminates:
  "nrecv s \<le> j \<Longrightarrow> segments s j = [] \<Longrightarrow> recv_loop True data s \<noteq> None"
proof (induction "j - nrecv s" arbitrary: s data)
  case 0
  then have "segments s (nrecv s) = []" by simp
  then show ?case by (simp only: recv_loop_eof) simp
next
  case (Suc n)
  show ?case
  proof (cases "segments s (nrecv s) = []")
    case True
    then show ?thesis by (simp only: recv_loop_eof) simp
  next
    case False
    let ?b = "take recv_bufsize (segments s (nrecv s))"
    have "recv_loop True (data @ ?b) (s\<lparr>nrecv := Suc (nrecv s)\<rparr>) \<noteq> None"
      using Suc.hyps(1) [of "s\<lparr>nrecv := Suc (nrecv s)\<rparr>"] Suc.hyps(2) Suc.prems
      by simp
    moreover have "?b \<noteq> []" using False by (simp add: recv_bufsize_def)
    then have "recv_loop True data s = recv_loop True (data @ ?b) (s\<lparr>nrecv := Suc (nrecv s)\<rparr>)"
      by (rule recv_loop_next [OF refl])
    ultimately show ?thesis by simp
  qed
qed

lemma recv_loop_returns_closed:
  assumes ret: "recv_loop buffer data s = Some r"
  shows "buffer \<longrightarrow> (\<exists>j \<ge> nrecv s. segments s j = [])"
proof (rule recv_loop.raw_induct
    [where P = "\<lambda>buffer data s r. buffer \<longrightarrow> (\<exists>j \<ge> nrecv s. segments s j = [])", OF _ ret])
  fix f :: "bool \<Rightarrow> bytes \<Rightarrow> socket \<Rightarrow> (bytes \<times> socket) option"
  fix buffer data s r
  assume IH: "\<And>buffer data s r. f buffer data s = Some r \<Longrightarrow>
                buffer \<longrightarrow> (\<exists>j \<ge> nrecv s. segments s j = [])"
    and eq: "(if buffer then
               let (b, s') = sock_recv recv_bufsize s
               in f (b \<noteq> []) (if b \<noteq> [] then data @ b else data) s'
             else Some (data, s)) = Some r"
  show "buffer \<longrightarrow> (\<exists>j \<ge> nrecv s. segments s j = [])"
  proof
    assume buffer
    let ?b = "take recv_bufsize (segments s (nrecv s))"
    show "\<exists>j \<ge> nrecv s. segments s j = []"
    proof (cases "?b = []")
      case True
      then show ?thesis by (auto simp: recv_bufsize_def)
    next
      case False
      with eq \<open>buffer\<close> have "f True (data @ ?b) (s\<lparr>nrecv := Suc (nrecv s)\<rparr>) = Some r"
        by (simp add: sock_recv_def)
      then obtain j where "j \<ge> Suc (nrecv s)" "segments s j = []"
        using IH by fastforce
      then show ?thesis by (auto intro: Suc_leD)
    qed
  qed
qed

text \<open>
  The receive loop reads only \<open>segments\<close> and \<open>nrecv\<close>: it runs the same whatever
  the kernel accepted at the send and whatever the server has received.
\<close>
lemma recv_loop_frame:
  assumes ret: "recv_loop b d s = Some r"
  shows "recv_loop b d (s\<lparr>accept_limit := a, sent := x\<rparr>) = Some (fst r, (snd r)\<lparr>accept_limit := a, sent := x\<rparr>)"
proof (rule recv_loop.raw_induct
    [where P = "\<lambda>b d s r. recv_loop b d (s\<lparr>accept_limit := a, sent := x\<rparr>) =
                  Some (fst r, (snd r)\<lparr>accept_limit := a, sent := x\<rparr>)", OF _ ret])
  fix f :: "bool \<Rightarrow> bytes \<Rightarrow> socket \<Rightarrow> (bytes \<times> socket) option"
  fix b d s r
  assume IH: "\<And>b d s r. f b d s = Some r \<Longrightarrow>
      recv_loop b d (s\<lparr>accept_limit := a, sent := x\<rparr>) = Some (fst r, (snd r)\<lparr>accept_limit := a, sent := x\<rparr>)"
    and eq: "(if b then
               let (c, s') = sock_recv recv_bufsize s
               in f (c \<noteq> []) (if c \<noteq> [] then d @ c else d) s'
             else Some (d, s)) = Some r"
  show "recv_loop b d (s\<lparr>accept_limit := a, sent := x\<rparr>) = Some (fst r, (snd r)\<lparr>accept_limit := a, sent := x\<rparr>)"
  proof (cases b)
    case False
    then have "r = (d, s)" using eq by simp
    with False show ?thesis by (simp only: recv_loop_stop) simp
  next
    case True
    define c where "c = take recv_bufsize (segments s (nrecv s))"
    define d' where "d' = (if c \<noteq> [] then d @ c else d)"
    have "f (c \<noteq> []) d' (s\<lparr>nrecv := Suc (nrecv s)\<rparr>) = Some r"
      using eq True unfolding c_def d'_def sock_recv_def by simp
    then have ih: "recv_loop (c \<noteq> []) d' (s\<lparr>nrecv := Suc (nrecv s), accept_limit := a, sent := x\<rparr>) =
        Some (fst r, (snd r)\<lparr>accept_limit := a, sent := x\<rparr>)"
      by (rule IH)
    have upd: "s\<lparr>accept_limit := a, sent := x, nrecv := Suc (nrecv s)\<rparr> =
               s\<lparr>nrecv := Suc (nrecv s), accept_limit := a, sent := x\<rparr>"
      by (cases s) simp
    have "recv_loop True d (s\<lparr>accept_limit := a, sent := x\<rparr>) =
          recv_loop (c \<noteq> []) d' (s\<lparr>accept_limit := a, sent := x, nrecv := Suc (nrecv s)\<rparr>)"
      unfolding recv_loop_step c_def d'_def Let_def by simp
    also have "\<dots> = Some (fst r, (snd r)\<lparr>accept_limit := a, sent := x\<rparr>)"
      by (simp only: upd ih)
    finally show ?thesis using True by simp
  qed
qed

lemma recv_loop_send_frame:
  "recv_loop b d (s\<lparr>accept_limit := a, sent := x\<rparr>) =
     map_option (\<lambda>(d', s'). (d', s'\<lparr>accept_limit := a, sent := x\<rparr>)) (recv_loop b d s)"
proof (cases "recv_loop b d s")
  case None
  show ?thesis
  proof (cases "recv_loop b d (s\<lparr>accept_limit := a, sent := x\<rparr>)")
    case (Some r)
    have "s\<lparr>accept_limit := a, sent := x, accept_limit := accept_limit s, sent := sent s\<rparr> = s"
      by simp
    with recv_loop_frame [OF Some, where a = "accept_limit s" and x = "sent s"] None show ?thesis by simp
  qed (simp add: None)
next
  case (Some r)
  then show ?thesis by (simp add: recv_loop_frame split_beta)
qed

subsection \<open>The fetch phase\<close>

lemma agps_fetch_unreachable:
  "\<not> reachable s address port \<Longrightarrow>
   agps_fetch s out = Some (Inl SocketError, s, out @ [''Connecting to u-blox''])"
  by (simp add: agps_fetch_def sock_connect_def py_print_def)

lemma agps_fetch_reachable:
  "reachable s address port \<Longrightarrow>
   agps_fetch s out =
     map_option (\<lambda>(data, s3). (Inr data, s3,
         out @ [''Connecting to u-blox'', ''Connection established'', ''Sending the request'']))
       (recv_loop True []
          (s\<lparr>peer := Some (address, port), sent := sent s @ take (accept_limit s) request\<rparr>))"
proof -
  have "take (min (accept_limit s) (length request)) request = take (accept_limit s) request"
    by (simp add: min_def)
  moreover assume "reachable s address port"
  ultimately show ?thesis
    by (simp add: agps_fetch_def sock_connect_def sock_send_def py_print_def Let_def)
qed

lemma agps_fetch_ok:
  assumes "reachable s address port" and "nrecv s \<le> j" and "segments s j = []"
    and "\<forall>k. nrecv s \<le> k \<and> k < j \<longrightarrow> segments s k \<noteq> []"
    and "\<forall>k. length (segments s k) \<le> recv_bufsize"
  shows "agps_fetch s out =
           Some (Inr (concat (map (segments s) [nrecv s..<j])),
                 s\<lparr>peer := Some (address, port), sent := sent s @ take (accept_limit s) request,
                   nrecv := Suc j\<rparr>,
                 out @ [''Connecting to u-blox'', ''Connection established'', ''Sending the request''])"
proof -
  let ?s2 = "s\<lparr>peer := Some (address, port), sent := sent s @ take (accept_limit s) request\<rparr>"
  have "recv_loop True [] ?s2 = Some ([] @ concat (map (segments ?s2) [nrecv ?s2..<j]), ?s2\<lparr>nrecv := Suc j\<rparr>)"
    using assms(2-5) by (intro recv_loop_result) simp_all
  then show ?thesis using assms(1) by (simp add: agps_fetch_reachable)
qed

lemma agps_fetch_blocks:
  "agps_fetch s out = None \<longleftrightarrow> reachable s address port \<and> (\<forall>j \<ge> nrecv s. segments s j \<noteq> [])"
proof (cases "reachable s address port")
  case True
  let ?s2 = "s\<lparr>peer := Some (address, port), sent := sent s @ take (accept_limit s) request\<rparr>"
  have "recv_loop True [] ?s2 = None \<longleftrightarrow> (\<forall>j \<ge> nrecv s. segments s j \<noteq> [])"
  proof
    assume "recv_loop True [] ?s2 = None"
    then show "\<forall>j \<ge> nrecv s. segments s j \<noteq> []"
      using recv_loop_terminates [of ?s2 _ "[]"] by auto
  next
    assume "\<forall>j \<ge> nrecv s. segments s j \<noteq> []"
    then show "recv_loop True [] ?s2 = None"
      using recv_loop_returns_closed [of True "[]" ?s2] by (cases "recv_loop True [] ?s2") auto
  qed
  with True show ?thesis by (simp add: agps_fetch_reachable)
next
  case False
  then show ?thesis by (simp add: agps_fetch_unreachable)
qed

subsection \<open>Properties of the fetcher\<close>

text \<open>
  C14: when the server closes the connection at the \<open>j\<close>-th \<^verbatim>\<open>recv\<close> and every
  earlier call returned data, the loop returns the concatenation of everything
  received, in order, after exactly \<open>j + 1\<close> calls.
\<close>
theorem recv_loop_collects:
  assumes "nrecv s \<le> j" and "segments s j = []"
    and "\<forall>k. nrecv s \<le> k \<and> k < j \<longrightarrow> segments s k \<noteq> []"
    and "\<forall>k. length (segments s k) \<le> recv_bufsize"
  shows "recv_loop True [] s = Some (concat (map (segments s) [nrecv s..<j]), s\<lparr>nrecv := Suc j\<rparr>)"
  using recv_loop_result [OF assms, of "[]"] by simp

theorem recv_loop_collects_witness:
  "recv_loop True [] \<lparr>reachable = (\<lambda>_ _. True), accept_limit = 100,
      segments = (\<lambda>i. if i < 2 then ''ab'' else []), peer = None, sent = [], nrecv = 0\<rparr> =
   Some (''abab'', \<lparr>reachable = (\<lambda>_ _. True), accept_limit = 100,
      segments = (\<lambda>i. if i < 2 then ''ab'' else []), peer = None, sent = [], nrecv = 3\<rparr>)"
  using recv_loop_collects [of "\<lparr>reachable = (\<lambda>_ _. True), accept_limit = 100,
      segments = (\<lambda>i. if i < 2 then ''ab'' else []), peer = None, sent = [], nrecv = 0\<rparr>" 2] by (auto simp: recv_bufsize_def numeral_2_eq_2)

text \<open>
  C15: the receive loop returns if and only if the server eventually closes the
  connection (some later \<^verbatim>\<open>recv\<close> returns the empty string); otherwise the script
  blocks in it for ever.
\<close>
theorem recv_loop_live:
  "recv_loop True data s \<noteq> None \<longleftrightarrow> (\<exists>j \<ge> nrecv s. segments s j = [])"
  using recv_loop_terminates recv_loop_returns_closed by blast

text \<open>
  C16: the script ignores the count \<^verbatim>\<open>sock.send\<close> returns (line 12): whatever
  number \<open>n\<close> of request bytes the kernel accepts, the fetch ends exactly as if the
  whole request had been accepted (same result, same \<^verbatim>\<open>recv\<close> calls, same
  console), and the server has received only the first \<open>n\<close> bytes of the request.
\<close>
theorem agps_fetch_ignores_send_count:
  "agps_fetch (s\<lparr>accept_limit := n\<rparr>) out =
     map_option (\<lambda>(r, s', out'). (r, s'\<lparr>accept_limit := n,
         sent := (if reachable s address port then sent s @ take n request else sent s)\<rparr>, out'))
       (agps_fetch (s\<lparr>accept_limit := length request\<rparr>) out)"
proof (cases "reachable s address port")
  case True
  let ?t = "s\<lparr>accept_limit := length request, peer := Some (address, port), sent := sent s @ request\<rparr>"
  have upd: "s\<lparr>accept_limit := n, peer := Some (address, port), sent := sent s @ take n request\<rparr> =
        ?t\<lparr>accept_limit := n, sent := sent s @ take n request\<rparr>" by (cases s) simp
  have "recv_loop True [] (s\<lparr>accept_limit := n, peer := Some (address, port), sent := sent s @ take n request\<rparr>) =
     map_option (\<lambda>(d', s'). (d', s'\<lparr>accept_limit := n, sent := sent s @ take n request\<rparr>)) (recv_loop True [] ?t)"
    unfolding upd by (rule recv_loop_send_frame)
  with True show ?thesis
    by (simp add: agps_fetch_reachable option.map_comp comp_def split_beta)
next
  case False
  then show ?thesis by (simp add: agps_fetch_unreachable)
qed

end
