(* ===== verification/Payload.thy ===== *)
theory Payload
  imports PyStr
begin

text \<open>
  Lines 22--24 of \<^verbatim>\<open>src/agps.py\<close>: the reply is an HTTP-like header, a blank line
  \<^verbatim>\<open>\r\n\r\n\<close>, and the binary AGPS payload.  \<^verbatim>\<open>data.index\<close> finds the first
  blank line (or raises \<^verbatim>\<open>ValueError\<close>), and the payload is the slice after it.
  The lemmas characterise the result completely: the payload is what follows the
  \<^emph>\<open>first\<close> delimiter, whatever the payload itself contains, and a reply without the
  delimiter is an error, never a payload.
\<close>

definition header_delim :: bytes where
  "header_delim = [CHR 0x0D, CHR 0x0A, CHR 0x0D, CHR 0x0A]"

text \<open>
  \<^verbatim>\<open>headerEndsAt = data.index("\r\n\r\n")\<close>,
  \<^verbatim>\<open>binaryStartsAt = headerEndsAt + 4\<close>, \<^verbatim>\<open>binary = data[binaryStartsAt:]\<close>.
\<close>
definition extract_binary :: "bytes \<Rightarrow> py_error + bytes" where
  "extract_binary data =
     (case py_index data header_delim of
        Inl e \<Rightarrow> Inl e
      | Inr headerEndsAt \<Rightarrow>
          (let binaryStartsAt = headerEndsAt + 4 in Inr (drop binaryStartsAt data)))"

lemma header_delim_ne: "header_delim \<noteq> []"
  by (simp add: header_delim_def)

lemma length_header_delim: "length header_delim = 4"
  by (simp add: header_delim_def)

lemma extract_binary_after:
  assumes "\<not> sublist header_delim (h @ butlast header_delim)"
  shows "extract_binary (h @ header_delim @ b) = Inr b"
proof -
  have "py_index (h @ header_delim @ b) header_delim = Inr (length h)"
    using py_index_split [OF header_delim_ne] assms by blast
  then show ?thesis by (simp add: extract_binary_def length_header_delim)
qed

lemma extract_binary_no_delim:
  assumes "\<not> sublist header_delim data"
  shows "extract_binary data = Inl ValueError"
proof -
  have "py_index data header_delim = Inl ValueError" using assms by (simp add: py_index_Inl)
  then show ?thesis by (simp add: extract_binary_def)
qed

text \<open>
  C1: the payload is exactly the bytes after the first \<^verbatim>\<open>\r\n\r\n\<close> of the reply:
  extraction succeeds with \<open>b\<close> if and only if the reply is a header \<open>h\<close>, the
  delimiter and \<open>b\<close>, where the delimiter does not occur earlier (not inside \<open>h\<close>
  and not straddling the end of \<open>h\<close>).
\<close>
theorem extract_binary_spec:
  "extract_binary data = Inr b \<longleftrightarrow>
     (\<exists>h. data = h @ header_delim @ b \<and> \<not> sublist header_delim (h @ butlast header_delim))"
proof
  assume ok: "extract_binary data = Inr b"
  then obtain k where k: "py_index data header_delim = Inr k" and b: "b = drop (k + 4) data"
    by (auto simp: extract_binary_def split: sum.splits)
  then obtain h b' where data: "data = h @ header_delim @ b'" and "length h = k"
    and nosub: "\<not> sublist header_delim (h @ butlast header_delim)"
    using py_index_split [OF header_delim_ne] by blast
  then have "b = b'" using b by (simp add: length_header_delim)
  with data nosub show "\<exists>h. data = h @ header_delim @ b \<and> \<not> sublist header_delim (h @ butlast header_delim)"
    by blast
next
  assume "\<exists>h. data = h @ header_delim @ b \<and> \<not> sublist header_delim (h @ butlast header_delim)"
  then obtain h where data: "data = h @ header_delim @ b"
    and nosub: "\<not> sublist header_delim (h @ butlast header_delim)" by blast
  then have "py_index data header_delim = Inr (length h)"
    using py_index_split [OF header_delim_ne] by blast
  with data show "extract_binary data = Inr b"
    by (simp add: extract_binary_def length_header_delim)
qed

text \<open>
  C2: later blank lines belong to the payload: for a header without the delimiter,
  a reply \<open>h \r\n\r\n b1 \r\n\r\n b2\<close> yields \<open>b1 \r\n\r\n b2\<close>.
\<close>
theorem extract_binary_first:
  assumes "\<not> sublist header_delim (h @ butlast header_delim)"
  shows "extract_binary (h @ header_delim @ b1 @ header_delim @ b2) = Inr (b1 @ header_delim @ b2)"
proof -
  have "py_index (h @ header_delim @ (b1 @ header_delim @ b2)) header_delim = Inr (length h)"
    using py_index_split [OF header_delim_ne] assms by blast
  then show ?thesis by (simp add: extract_binary_def length_header_delim)
qed

theorem extract_binary_first_witness:
  "\<not> sublist header_delim (''HTTP/1.0 200 OK'' @ butlast header_delim) \<and>
   extract_binary (''HTTP/1.0 200 OK'' @ header_delim @ ''AB'' @ header_delim @ ''CD'') =
     Inr (''AB'' @ header_delim @ ''CD'')"
proof -
  have h: "\<not> sublist header_delim (''HTTP/1.0 200 OK'' @ butlast header_delim)"
    by (simp add: header_delim_def sublist_code)
  show ?thesis using h extract_binary_first [OF h, of "''AB''" "''CD''"] by simp
qed

text \<open>
  C3: extraction fails, with \<^verbatim>\<open>ValueError\<close> and nothing else, exactly when the
  reply has no \<^verbatim>\<open>\r\n\r\n\<close>: no payload is returned silently.
\<close>
theorem extract_binary_error:
  "extract_binary data = Inl e \<longleftrightarrow> e = ValueError \<and> \<not> sublist header_delim data"
proof (cases "py_index data header_delim")
  case (Inl e')
  then show ?thesis using py_index_Inl [of data header_delim e'] by (auto simp: extract_binary_def)
next
  case (Inr k)
  then have "sublist header_delim data" by (auto simp: py_index_Inr intro: prefix_drop_sublist)
  with Inr show ?thesis by (simp add: extract_binary_def Let_def)
qed

end
