(* ===== verification/Serial.thy ===== *)
theory Serial
  imports Prelude
begin

text \<open>
  The serial uplink, lines 26--35 of \<^verbatim>\<open>src/agps.py\<close>: open \<^verbatim>\<open>/dev/ttyAMA0\<close> at
  9600 baud, drain the bytes already waiting (\<^verbatim>\<open>while drainer: drainer =
  ser.inWaiting(); ser.read(drainer)\<close>), then write the AGPS payload.  The lemmas show
  that the drain returns exactly when the line is quiet at one poll, that it leaves the
  input buffer empty, and that the write then sends the whole payload.
\<close>

subsection \<open>The serial port\<close>

text \<open>
  The pyserial object with the device behind it.  \<open>device_ok\<close> says which device
  paths can be opened, and \<open>line i\<close> is what the receiver sends between poll
  \<open>i - 1\<close> and poll \<open>i\<close> of \<^verbatim>\<open>inWaiting\<close>: both are the environment.  The
  script's calls change \<open>is_open\<close>, \<open>dev\<close>, \<open>baud\<close>, the input buffer
  \<open>inbuf\<close>, the poll counter \<open>tick\<close> and \<open>written\<close>, the bytes sent to the
  receiver.
\<close>
record serial =
  device_ok :: "string \<Rightarrow> bool"
  line :: "nat \<Rightarrow> bytes"
  tick :: nat
  is_open :: bool
  dev :: string
  baud :: nat
  inbuf :: bytes
  written :: bytes

definition device :: string where
  "device = ''/dev/ttyAMA0''"

definition baudrate :: nat where
  "baudrate = 9600"

text \<open>\<^verbatim>\<open>serial.Serial(path, baud)\<close>: \<^verbatim>\<open>SerialException\<close> if the device cannot be opened.\<close>
definition serial_open :: "string \<Rightarrow> nat \<Rightarrow> serial \<Rightarrow> py_error + serial" where
  "serial_open path rate p =
     (if device_ok p path then Inr (p\<lparr>is_open := True, dev := path, baud := rate\<rparr>)
      else Inl SerialException)"

text \<open>\<^verbatim>\<open>ser.inWaiting()\<close>: what arrived since the last poll joins the buffer; its size.\<close>
definition in_waiting :: "serial \<Rightarrow> nat \<times> serial" where
  "in_waiting p =
     (let p' = p\<lparr>inbuf := inbuf p @ line p (tick p), tick := Suc (tick p)\<rparr>
      in (length (inbuf p'), p'))"

text \<open>\<^verbatim>\<open>ser.read(n)\<close> for \<open>n\<close> at most the bytes waiting: they are taken from the buffer.\<close>
definition ser_read :: "nat \<Rightarrow> serial \<Rightarrow> bytes \<times> serial" where
  "ser_read n p = (take n (inbuf p), p\<lparr>inbuf := drop n (inbuf p)\<rparr>)"

text \<open>\<^verbatim>\<open>ser.write(b)\<close>: a blocking write of all of \<open>b\<close>.\<close>
definition ser_write :: "bytes \<Rightarrow> serial \<Rightarrow> serial" where
  "ser_write b p = p\<lparr>written := written p @ b\<rparr>"

text \<open>\<^verbatim>\<open>ser.close()\<close>.\<close>
definition ser_close :: "serial \<Rightarrow> serial" where
  "ser_close p = p\<lparr>is_open := False\<rparr>"

subsection \<open>The drain loop\<close>

text \<open>
  The flag is the truth value of \<^verbatim>\<open>drainer\<close>: \<^verbatim>\<open>True\<close>, then the count of the
  last poll.  The loop runs as long as the receiver keeps sending, so it is a
  \<^theory_text>\<open>partial_function (option)\<close>.
\<close>
partial_function (option) drain_loop :: "bool \<Rightarrow> serial \<Rightarrow> serial option" where
  "drain_loop drainer p =
     (if drainer then
        (let (n, p1) = in_waiting p; (_, p2) = ser_read n p1 in drain_loop (n \<noteq> 0) p2)
      else Some p)"

text \<open>Lines 26--35: open, drain, write, with the progress messages.\<close>
definition serial_uplink ::
  "bytes \<Rightarrow> serial \<Rightarrow> console \<Rightarrow> ((py_error + unit) \<times> serial \<times> console) option" where
  "serial_uplink binary p out =
     (case serial_open device baudrate p of
        Inl e \<Rightarrow> Some (Inl e, p, out)
      | Inr ser \<Rightarrow>
          (let out1 = py_print ''Waiting for free line'' out
           in map_option
                (\<lambda>ser'. (Inr (), ser_write binary ser',
                         py_print ''Done'' (py_print ''Writing AGPS data'' out1)))
                (drain_loop True ser)))"

subsection \<open>Unfolding the drain loop\<close>

lemma drain_loop_step:
  "drain_loop True p =
     (if inbuf p @ line p (tick p) = [] then Some (p\<lparr>tick := Suc (tick p)\<rparr>)
      else drain_loop True (p\<lparr>inbuf := [], tick := Suc (tick p)\<rparr>))"
  by (simp add: drain_loop.simps [of True] drain_loop.simps [of False] in_waiting_def
      ser_read_def Let_def)

lemma drain_loop_quiet:
  "tick p \<le> j \<Longrightarrow> line p j = [] \<Longrightarrow> \<forall>k. tick p \<le> k \<and> k < j \<longrightarrow> line p k \<noteq> [] \<Longrightarrow>
   inbuf p = [] \<Longrightarrow> drain_loop True p = Some (p\<lparr>tick := Suc j\<rparr>)"
proof (induction "j - tick p" arbitrary: p)
  case 0
  then show ?case by (simp add: drain_loop_step)
next
  case (Suc n)
  then have lt: "tick p < j" and ne: "line p (tick p) \<noteq> []" by auto
  let ?p' = "p\<lparr>inbuf := [], tick := Suc (tick p)\<rparr>"
  have "drain_loop True ?p' = Some (?p'\<lparr>tick := Suc j\<rparr>)"
    using Suc.hyps(1) [of ?p'] Suc.hyps(2) Suc.prems lt by simp
  with ne Suc.prems(4) show ?case by (subst drain_loop_step) simp
qed

lemma drain_loop_terminates:
  "tick p \<le> j \<Longrightarrow> line p j = [] \<Longrightarrow> inbuf p = [] \<Longrightarrow> drain_loop True p \<noteq> None"
proof (induction "j - tick p" arbitrary: p)
  case 0
  then show ?case by (simp add: drain_loop_step)
next
  case (Suc n)
  let ?p' = "p\<lparr>inbuf := [], tick := Suc (tick p)\<rparr>"
  have "drain_loop True ?p' \<noteq> None"
    using Suc.hyps(1) [of ?p'] Suc.hyps(2) Suc.prems by simp
  with Suc.prems(3) show ?case by (subst drain_loop_step) simp
qed

lemma drain_loop_returns_quiet:
  assumes ret: "drain_loop drainer p = Some r"
  shows "drainer \<longrightarrow> inbuf p @ line p (tick p) = [] \<or> (\<exists>j > tick p. line p j = [])"
proof (rule drain_loop.raw_induct
    [where P = "\<lambda>drainer p r. drainer \<longrightarrow>
                  inbuf p @ line p (tick p) = [] \<or> (\<exists>j > tick p. line p j = [])", OF _ ret])
  fix f :: "bool \<Rightarrow> serial \<Rightarrow> serial option"
  fix drainer p r
  assume IH: "\<And>drainer p r. f drainer p = Some r \<Longrightarrow>
                drainer \<longrightarrow> inbuf p @ line p (tick p) = [] \<or> (\<exists>j > tick p. line p j = [])"
    and eq: "(if drainer then
               let (n, p1) = in_waiting p; (_, p2) = ser_read n p1 in f (n \<noteq> 0) p2
             else Some p) = Some r"
  show "drainer \<longrightarrow> inbuf p @ line p (tick p) = [] \<or> (\<exists>j > tick p. line p j = [])"
  proof
    assume drainer
    show "inbuf p @ line p (tick p) = [] \<or> (\<exists>j > tick p. line p j = [])"
    proof (cases "inbuf p @ line p (tick p) = []")
      case True
      then show ?thesis ..
    next
      case False
      with eq \<open>drainer\<close> have "f True (p\<lparr>tick := Suc (tick p), inbuf := []\<rparr>) = Some r"
        by (simp add: in_waiting_def ser_read_def)
      then have "line p (Suc (tick p)) = [] \<or> (\<exists>j > Suc (tick p). line p j = [])"
        using IH by fastforce
      then show ?thesis by (auto intro: Suc_lessD)
    qed
  qed
qed

lemma drain_loop_first_quiet:
  assumes "tick p < j" and "line p j = []" and "\<forall>k. tick p < k \<and> k < j \<longrightarrow> line p k \<noteq> []"
  shows "drain_loop True p =
           Some (p\<lparr>inbuf := [], tick := Suc (if inbuf p @ line p (tick p) = [] then tick p else j)\<rparr>)"
proof (cases "inbuf p @ line p (tick p) = []")
  case True
  then show ?thesis by (simp add: drain_loop_step)
next
  case False
  let ?p' = "p\<lparr>inbuf := [], tick := Suc (tick p)\<rparr>"
  have rest: "drain_loop True ?p' = Some (?p'\<lparr>tick := Suc j\<rparr>)"
    using assms by (intro drain_loop_quiet) auto
  have step: "drain_loop True p = drain_loop True ?p'"
    by (subst drain_loop_step) (simp only: if_not_P [OF False])
  show ?thesis unfolding step if_not_P [OF False] rest by simp
qed

lemma serial_uplink_exact:
  assumes "device_ok p device"
    and "tick p < j" and "line p j = []" and "\<forall>k. tick p < k \<and> k < j \<longrightarrow> line p k \<noteq> []"
  shows "serial_uplink binary p out =
           Some (Inr (),
                 p\<lparr>is_open := True, dev := device, baud := baudrate, inbuf := [],
                   tick := Suc (if inbuf p @ line p (tick p) = [] then tick p else j),
                   written := written p @ binary\<rparr>,
                 out @ [''Waiting for free line'', ''Writing AGPS data'', ''Done''])"
proof -
  let ?ser = "p\<lparr>is_open := True, dev := device, baud := baudrate\<rparr>"
  have "drain_loop True ?ser =
          Some (?ser\<lparr>inbuf := [], tick := Suc (if inbuf ?ser @ line ?ser (tick ?ser) = [] then tick ?ser else j)\<rparr>)"
    using assms(2-4) by (intro drain_loop_first_quiet) simp_all
  with assms(1) show ?thesis
    by (simp add: serial_uplink_def serial_open_def ser_write_def py_print_def)
qed

lemma serial_uplink_fails:
  "\<not> device_ok p device \<Longrightarrow> serial_uplink binary p out = Some (Inl SerialException, p, out)"
  by (simp add: serial_uplink_def serial_open_def)

subsection \<open>Properties of the uplink\<close>

text \<open>
  C17: once the line is quiet at some poll, the drain returns a port whose input buffer
  is empty (the stale bytes are gone) and has written nothing to the receiver.
\<close>
theorem drain_empties_buffer:
  assumes "tick p < j" and "line p j = []" and "\<forall>k. tick p < k \<and> k < j \<longrightarrow> line p k \<noteq> []"
  shows "\<exists>p'. drain_loop True p = Some p' \<and> inbuf p' = [] \<and> written p' = written p \<and>
              is_open p' = is_open p"
  using drain_loop_first_quiet [OF assms] by simp

theorem drain_empties_buffer_witness:
  "\<exists>p'. drain_loop True \<lparr>device_ok = (\<lambda>_. True), line = (\<lambda>i. if i < 3 then ''xy'' else []), tick = 0,
      is_open = True, dev = [], baud = 0, inbuf = ''zz'', written = []\<rparr> = Some p' \<and> inbuf p' = [] \<and> written p' = [] \<and> is_open p'"
  using drain_empties_buffer [of "\<lparr>device_ok = (\<lambda>_. True), line = (\<lambda>i. if i < 3 then ''xy'' else []), tick = 0,
      is_open = True, dev = [], baud = 0, inbuf = ''zz'', written = []\<rparr>" 3] by simp

text \<open>
  C18: the drain loop returns if and only if some poll finds the line quiet: the first
  one (nothing buffered and nothing new) or a later one (nothing new since the last).
  A receiver that never pauses keeps the script in the loop for ever.
\<close>
theorem drain_live:
  "drain_loop True p \<noteq> None \<longleftrightarrow> inbuf p @ line p (tick p) = [] \<or> (\<exists>j > tick p. line p j = [])"
proof
  assume "drain_loop True p \<noteq> None"
  then show "inbuf p @ line p (tick p) = [] \<or> (\<exists>j > tick p. line p j = [])"
    using drain_loop_returns_quiet by blast
next
  assume quiet: "inbuf p @ line p (tick p) = [] \<or> (\<exists>j > tick p. line p j = [])"
  show "drain_loop True p \<noteq> None"
  proof (cases "inbuf p @ line p (tick p) = []")
    case True
    then show ?thesis by (simp add: drain_loop_step)
  next
    case False
    with quiet obtain j where "j > tick p" "line p j = []" by blast
    then have "drain_loop True (p\<lparr>inbuf := [], tick := Suc (tick p)\<rparr>) \<noteq> None"
      by (intro drain_loop_terminates) auto
    with False show ?thesis by (subst drain_loop_step) simp
  qed
qed

text \<open>
  C19: when the device opens and the line goes quiet, the uplink writes exactly the
  payload, after a poll that found the input buffer empty, and prints its three
  messages.
\<close>
theorem serial_uplink_ok:
  assumes "device_ok p device"
    and "tick p < j" and "line p j = []" and "\<forall>k. tick p < k \<and> k < j \<longrightarrow> line p k \<noteq> []"
  shows "\<exists>p'. serial_uplink binary p out =
                Some (Inr (), p', out @ [''Waiting for free line'', ''Writing AGPS data'', ''Done'']) \<and>
              written p' = written p @ binary \<and> inbuf p' = [] \<and> is_open p' \<and>
              dev p' = device \<and> baud p' = baudrate"
  using serial_uplink_exact [OF assms, of binary out] by simp

theorem serial_uplink_ok_witness:
  "\<exists>p'. serial_uplink ''AB'' \<lparr>device_ok = (\<lambda>_. True), line = (\<lambda>i. if i < 2 then ''x'' else []), tick = 0,
      is_open = False, dev = [], baud = 0, inbuf = [], written = []\<rparr> [] =
          Some (Inr (), p', [''Waiting for free line'', ''Writing AGPS data'', ''Done'']) \<and>
        written p' = ''AB'' \<and> inbuf p' = [] \<and> is_open p' \<and> dev p' = device \<and> baud p' = baudrate"
  using serial_uplink_ok [of "\<lparr>device_ok = (\<lambda>_. True), line = (\<lambda>i. if i < 2 then ''x'' else []), tick = 0,
      is_open = False, dev = [], baud = 0, inbuf = [], written = []\<rparr>" 2 "''AB''" "[]"] by simp

end
