(* ===== verification/Relay.thy ===== *)
theory Relay
  imports PyStr Serial
begin

text \<open>
  The sentence relay, lines 37--48 of \<^verbatim>\<open>src/agps.py\<close>: read the port one byte at a
  time; at every \<^verbatim>\<open>$\<close> print the message collected so far (stripped) if it starts
  with \<^verbatim>\<open>$GPGGA\<close>, then start a new message with the \<^verbatim>\<open>$\<close>.  A Ctrl-C during a
  read closes the port and ends the loop.

  The loop does not end by itself, so it is a step function \<open>relay_step\<close> over the
  outcomes of successive \<^verbatim>\<open>ser.read()\<close> calls, and \<open>relay_run\<close> runs it over any
  finite prefix of them: every property holds after every prefix of an infinite run.
\<close>

text \<open>
  What one \<^verbatim>\<open>ser.read()\<close> call does: return one byte, return the empty string (only
  with a read timeout, which the script does not set) or raise \<^verbatim>\<open>KeyboardInterrupt\<close>.
\<close>
datatype read_result = Byte char | NoData | Interrupt

record relay =
  ser :: serial
  message :: bytes
  running :: bool
  out :: console

text \<open>Lines 37--38: \<^verbatim>\<open>buffer = True\<close>, \<^verbatim>\<open>message = ""\<close>.\<close>
definition relay_init :: "serial \<Rightarrow> console \<Rightarrow> relay" where
  "relay_init p out0 = \<lparr>ser = p, message = [], running = True, out = out0\<rparr>"

text \<open>
  One iteration of \<^verbatim>\<open>while buffer:\<close> with the outcome of its read.  Once the loop
  has ended (\<open>running\<close> false) no further read happens, so the outcome is ignored.
\<close>
fun relay_step :: "relay \<Rightarrow> read_result \<Rightarrow> relay" where
  "relay_step r ev =
     (if \<not> running r then r
      else case ev of
        Interrupt \<Rightarrow> r\<lparr>ser := ser_close (ser r), running := False\<rparr>
      | NoData \<Rightarrow> r\<lparr>running := False\<rparr>
      | Byte c \<Rightarrow>
          (let r1 = (if [c] = ''$'' then
                       r\<lparr>out := (if startswith (message r) ''$GPGGA''
                                  then py_print (strip (message r)) (out r) else out r),
                         message := []\<rparr>
                     else r)
           in r1\<lparr>message := message r1 @ [c]\<rparr>))"

fun relay_run :: "relay \<Rightarrow> read_result list \<Rightarrow> relay" where
  "relay_run r [] = r"
| "relay_run r (ev # evs) = relay_run (relay_step r ev) evs"

subsection \<open>Specification of the framing\<close>

text \<open>
  The stream cut before every \<^verbatim>\<open>$\<close>: the text before the first \<^verbatim>\<open>$\<close>, then
  each \<^verbatim>\<open>$\<close> with what follows it up to the next one.  All but the last are
  complete frames; the last is still being received.
\<close>
definition relay_frames :: "bytes \<Rightarrow> bytes list" where
  "relay_frames s =
     (let segs = split_on (CHR ''$'') s in hd segs # map (\<lambda>f. CHR ''$'' # f) (tl segs))"

text \<open>What the relay should print for a stream: the complete \<^verbatim>\<open>$GPGGA\<close> frames, stripped.\<close>
definition gpgga_lines :: "bytes \<Rightarrow> string list" where
  "gpgga_lines s =
     map strip (filter (\<lambda>f. startswith f ''$GPGGA'') (butlast (relay_frames s)))"

subsection \<open>Reachable states and the invariant\<close>

inductive relay_reach :: "console \<Rightarrow> relay \<Rightarrow> bool" where
  start: "is_open p \<Longrightarrow> relay_reach out0 (relay_init p out0)"
| step: "relay_reach out0 r \<Longrightarrow> relay_reach out0 (relay_step r ev)"

text \<open>
  What every reachable state satisfies: the message holds no \<^verbatim>\<open>$\<close> but possibly its
  first byte; the console is the initial one followed by lines that start with
  \<^verbatim>\<open>$GPGGA\<close> and carry no surrounding whitespace; and while the loop runs the port
  is open.
\<close>
definition relay_inv :: "console \<Rightarrow> relay \<Rightarrow> bool" where
  "relay_inv out0 r \<longleftrightarrow>
     CHR ''$'' \<notin> set (drop 1 (message r)) \<and> prefix out0 (out r) \<and>
     list_all (\<lambda>l. startswith l ''$GPGGA'' \<and> strip l = l) (drop (length out0) (out r)) \<and>
     (running r \<longrightarrow> is_open (ser r))"

subsection \<open>Runs\<close>

lemma relay_run_append: "relay_run r (xs @ ys) = relay_run (relay_run r xs) ys"
  by (induction xs arbitrary: r) auto

lemma relay_run_stopped: "\<not> running r \<Longrightarrow> relay_run r evs = r"
  by (induction evs) auto

lemma relay_step_byte:
  "running r \<Longrightarrow> relay_step r (Byte c) =
     (if c = CHR ''$'' then
        r\<lparr>out := (if startswith (message r) ''$GPGGA''
                   then out r @ [strip (message r)] else out r),
          message := ''$''\<rparr>
      else r\<lparr>message := message r @ [c]\<rparr>)"
  by (simp add: py_print_def)

lemma startswith_strip_gpgga:
  "startswith m ''$GPGGA'' \<Longrightarrow> startswith (strip m) ''$GPGGA''"
  by (simp add: startswith_prefix strip_keeps_prefix py_isspace_def)

subsection \<open>Frames\<close>

lemma relay_frames_snoc:
  "relay_frames (s @ [c]) =
     (if c = CHR ''$'' then relay_frames s @ [''$'']
      else butlast (relay_frames s) @ [last (relay_frames s) @ [c]])"
proof -
  obtain x xs where segs: "split_on (CHR ''$'') s = x # xs"
    using split_on_ne by (metis list.exhaust)
  show ?thesis
  proof (cases "c = CHR ''$''")
    case True
    then show ?thesis by (simp add: relay_frames_def split_on_snoc segs)
  next
    case False
    then show ?thesis
      by (cases xs rule: rev_cases)
        (simp_all add: relay_frames_def split_on_snoc segs butlast_append map_butlast last_map)
  qed
qed

lemma relay_frames_ne: "relay_frames s \<noteq> []"
  by (simp add: relay_frames_def Let_def)

lemma gpgga_lines_snoc:
  "gpgga_lines (s @ [c]) =
     (if c = CHR ''$'' \<and> startswith (last (relay_frames s)) ''$GPGGA''
      then gpgga_lines s @ [strip (last (relay_frames s))] else gpgga_lines s)"
proof (cases "c = CHR ''$''")
  case True
  then have "butlast (relay_frames (s @ [c])) = butlast (relay_frames s) @ [last (relay_frames s)]"
    using relay_frames_ne by (simp add: relay_frames_snoc)
  with True show ?thesis by (simp add: gpgga_lines_def)
next
  case False
  then have "butlast (relay_frames (s @ [c])) = butlast (relay_frames s)"
    by (simp add: relay_frames_snoc)
  with False show ?thesis by (simp add: gpgga_lines_def)
qed

lemma relay_frames_message:
  assumes "CHR ''$'' \<notin> set (drop 1 m)"
  shows "last (relay_frames m) = m \<and> gpgga_lines m = []"
proof (cases m)
  case Nil
  then show ?thesis by (simp add: relay_frames_def gpgga_lines_def)
next
  case (Cons a x)
  with assms have x: "CHR ''$'' \<notin> set x" by simp
  show ?thesis
  proof (cases "a = CHR ''$''")
    case True
    with Cons x show ?thesis
      by (simp add: relay_frames_def gpgga_lines_def split_on_notin startswith_def)
  next
    case False
    with Cons x have "split_on (CHR ''$'') m = [m]" by (simp add: split_on_notin)
    then show ?thesis by (simp add: relay_frames_def gpgga_lines_def)
  qed
qed

lemma relay_run_bytes:
  assumes "running r" and "CHR ''$'' \<notin> set (drop 1 (message r))"
  shows "relay_run r (map Byte s) =
           r\<lparr>message := last (relay_frames (message r @ s)),
             out := out r @ gpgga_lines (message r @ s)\<rparr>"
proof (induction s rule: rev_induct)
  case Nil
  then show ?case using relay_frames_message [OF assms(2)] by simp
next
  case (snoc c s)
  have "running (relay_run r (map Byte s))" using snoc.IH assms(1) by simp
  moreover have "relay_frames (message r @ s @ [c]) =
     (if c = CHR ''$'' then relay_frames (message r @ s) @ [''$'']
      else butlast (relay_frames (message r @ s)) @ [last (relay_frames (message r @ s)) @ [c]])"
    using relay_frames_snoc [of "message r @ s" c] by simp
  moreover have "gpgga_lines (message r @ s @ [c]) =
     (if c = CHR ''$'' \<and> startswith (last (relay_frames (message r @ s))) ''$GPGGA''
      then gpgga_lines (message r @ s) @ [strip (last (relay_frames (message r @ s)))]
      else gpgga_lines (message r @ s))"
    using gpgga_lines_snoc [of "message r @ s" c] by simp
  ultimately show ?case
    using snoc.IH relay_frames_ne [of "message r @ s"]
    by (simp add: relay_run_append relay_step_byte del: relay_step.simps)
qed

lemma relay_step_inv:
  assumes "relay_inv out0 r"
  shows "relay_inv out0 (relay_step r ev)"
proof (cases "running r")
  case False
  with assms show ?thesis by simp
next
  case True
  have len: "length out0 \<le> length (out r)"
    using assms by (auto simp: relay_inv_def dest: prefix_length_le)
  show ?thesis
  proof (cases ev)
    case (Byte c)
    show ?thesis
    proof (cases "c = CHR ''$''")
      case dollar: True
      then show ?thesis
        using assms True Byte len
        by (auto simp: relay_inv_def relay_step_byte startswith_strip_gpgga strip_idem
            prefix_prefix simp del: relay_step.simps)
    next
      case False
      then show ?thesis
        using assms True Byte
        by (auto simp: relay_inv_def relay_step_byte simp del: relay_step.simps
            dest: in_set_dropD)
    qed
  qed (use assms True in \<open>auto simp: relay_inv_def ser_close_def\<close>)
qed

lemma relay_reach_inv: "relay_reach out0 r \<Longrightarrow> relay_inv out0 r"
proof (induction rule: relay_reach.induct)
  case (start p out0)
  then show ?case by (simp add: relay_inv_def relay_init_def)
next
  case (step out0 r ev)
  from step.IH show ?case by (rule relay_step_inv)
qed

lemma relay_reach_run: "relay_reach out0 r \<Longrightarrow> relay_reach out0 (relay_run r evs)"
  by (induction evs arbitrary: r) (auto intro: relay_reach.step simp del: relay_step.simps)

subsection \<open>Properties of the relay\<close>

text \<open>
  C4: refinement of the framing specification.  After reading the bytes \<open>s\<close> from
  the start, the relay has printed exactly \<open>gpgga_lines s\<close> (every complete
  \<^verbatim>\<open>$GPGGA\<close> frame, stripped, in order), holds the unfinished last frame, and has
  not touched the port.
\<close>
theorem relay_refines:
  "relay_run (relay_init p out0) (map Byte s) =
     \<lparr>ser = p, message = last (relay_frames s), running = True, out = out0 @ gpgga_lines s\<rparr>"
  using relay_run_bytes [of "relay_init p out0" s] by (simp add: relay_init_def)

text \<open>
  C6: a Ctrl-C during a read closes the port and ends the loop: whatever would
  have come next is never read, and the console holds the \<^verbatim>\<open>$GPGGA\<close> lines of the
  bytes read before it.
\<close>
theorem relay_interrupt:
  "relay_run (relay_init p out0) (map Byte s @ Interrupt # evs) =
     \<lparr>ser = ser_close p, message = last (relay_frames s), running = False,
      out = out0 @ gpgga_lines s\<rparr>"
  using relay_run_bytes [of "relay_init p out0" s]
  by (simp add: relay_init_def relay_run_append relay_run_stopped)

text \<open>
  C20: a read that returns no data also ends the loop, but leaves the port open: the
  script releases the device only on the interrupt path.
\<close>
theorem relay_nodata_keeps_port:
  "relay_run (relay_init p out0) (map Byte s @ NoData # evs) =
     \<lparr>ser = p, message = last (relay_frames s), running = False, out = out0 @ gpgga_lines s\<rparr>"
  using relay_run_bytes [of "relay_init p out0" s]
  by (simp add: relay_init_def relay_run_append relay_run_stopped)

text \<open>
  C5: framing invariant.  In every reachable state the message contains no \<^verbatim>\<open>$\<close>
  except possibly as its first byte: it is the delimiter that opened the current frame
  and the bytes received since.
\<close>
theorem relay_framing:
  "relay_reach out0 r \<Longrightarrow> CHR ''$'' \<notin> set (drop 1 (message r))"
proof (induction rule: relay_reach.induct)
  case (start p out0)
  then show ?case by (simp add: relay_init_def)
next
  case (step out0 r ev)
  then show ?case by (cases ev) (auto dest: in_set_dropD)
qed

theorem relay_framing_witness:
  "relay_reach [] (relay_run (relay_init \<lparr>device_ok = (\<lambda>_. True), line = (\<lambda>_. []), tick = 0, is_open = True, dev = [],
      baud = 0, inbuf = [], written = []\<rparr> []) (map Byte ''$GPGGA,1 $G'')) \<and> CHR ''$'' \<notin> set (drop 1 (message (relay_run (relay_init \<lparr>device_ok = (\<lambda>_. True), line = (\<lambda>_. []), tick = 0, is_open = True, dev = [],
      baud = 0, inbuf = [], written = []\<rparr> []) (map Byte ''$GPGGA,1 $G''))))"
proof -
  have r: "relay_reach [] (relay_run (relay_init \<lparr>device_ok = (\<lambda>_. True), line = (\<lambda>_. []), tick = 0, is_open = True, dev = [],
      baud = 0, inbuf = [], written = []\<rparr> []) (map Byte ''$GPGGA,1 $G''))"
    by (intro relay_reach_run relay_reach.start) simp
  show ?thesis using r relay_framing [OF r] by blast
qed

text \<open>
  C7: the relay only appends to the console, and every line it prints starts with
  \<^verbatim>\<open>$GPGGA\<close> and has no leading or trailing whitespace.
\<close>
theorem relay_output_safe:
  "relay_reach out0 r \<Longrightarrow>
   prefix out0 (out r) \<and>
   list_all (\<lambda>l. startswith l ''$GPGGA'' \<and> strip l = l) (drop (length out0) (out r))"
  using relay_reach_inv by (simp add: relay_inv_def)

theorem relay_output_safe_witness:
  "relay_reach [] (relay_run (relay_init \<lparr>device_ok = (\<lambda>_. True), line = (\<lambda>_. []), tick = 0, is_open = True, dev = [],
      baud = 0, inbuf = [], written = []\<rparr> []) (map Byte ''$GPGGA,1 $G'')) \<and> prefix [] (out (relay_run (relay_init \<lparr>device_ok = (\<lambda>_. True), line = (\<lambda>_. []), tick = 0, is_open = True, dev = [],
      baud = 0, inbuf = [], written = []\<rparr> []) (map Byte ''$GPGGA,1 $G''))) \<and>
   list_all (\<lambda>l. startswith l ''$GPGGA'' \<and> strip l = l) (drop (length ([] :: string list)) (out (relay_run (relay_init \<lparr>device_ok = (\<lambda>_. True), line = (\<lambda>_. []), tick = 0, is_open = True, dev = [],
      baud = 0, inbuf = [], written = []\<rparr> []) (map Byte ''$GPGGA,1 $G''))))"
proof -
  have r: "relay_reach [] (relay_run (relay_init \<lparr>device_ok = (\<lambda>_. True), line = (\<lambda>_. []), tick = 0, is_open = True, dev = [],
      baud = 0, inbuf = [], written = []\<rparr> []) (map Byte ''$GPGGA,1 $G''))"
    by (intro relay_reach_run relay_reach.start) simp
  show ?thesis using r relay_output_safe [OF r] by blast
qed

text \<open>C21: while the loop runs, the port it reads from is open.\<close>
theorem relay_port_open:
  "relay_reach out0 r \<Longrightarrow> running r \<Longrightarrow> is_open (ser r)"
  using relay_reach_inv by (simp add: relay_inv_def)

theorem relay_port_open_witness:
  "relay_reach [] (relay_run (relay_init \<lparr>device_ok = (\<lambda>_. True), line = (\<lambda>_. []), tick = 0, is_open = True, dev = [],
      baud = 0, inbuf = [], written = []\<rparr> []) (map Byte ''$GPGGA,1 $G'')) \<and> running (relay_run (relay_init \<lparr>device_ok = (\<lambda>_. True), line = (\<lambda>_. []), tick = 0, is_open = True, dev = [],
      baud = 0, inbuf = [], written = []\<rparr> []) (map Byte ''$GPGGA,1 $G'')) \<and> is_open (ser (relay_run (relay_init \<lparr>device_ok = (\<lambda>_. True), line = (\<lambda>_. []), tick = 0, is_open = True, dev = [],
      baud = 0, inbuf = [], written = []\<rparr> []) (map Byte ''$GPGGA,1 $G'')))"
proof -
  have r: "relay_reach [] (relay_run (relay_init \<lparr>device_ok = (\<lambda>_. True), line = (\<lambda>_. []), tick = 0, is_open = True, dev = [],
      baud = 0, inbuf = [], written = []\<rparr> []) (map Byte ''$GPGGA,1 $G''))"
    by (intro relay_reach_run relay_reach.start) simp
  have run: "running (relay_run (relay_init \<lparr>device_ok = (\<lambda>_. True), line = (\<lambda>_. []), tick = 0, is_open = True, dev = [],
      baud = 0, inbuf = [], written = []\<rparr> []) (map Byte ''$GPGGA,1 $G''))"
    by (simp add: relay_init_def)
  show ?thesis using r run relay_port_open [OF r run] by blast
qed

text \<open>
  The two views of the relay agree: the states of the inductive step relation
  \<open>relay_reach\<close> are exactly the states the executable loop \<open>relay_run\<close> reaches
  from an open port after some sequence of reads.
\<close>
lemma relay_reach_iff_run:
  "relay_reach out0 r \<longleftrightarrow> (\<exists>p evs. is_open p \<and> r = relay_run (relay_init p out0) evs)"
proof
  assume "relay_reach out0 r"
  then show "\<exists>p evs. is_open p \<and> r = relay_run (relay_init p out0) evs"
  proof (induction rule: relay_reach.induct)
    case (start p out0)
    then have "relay_init p out0 = relay_run (relay_init p out0) []" by simp
    with start show ?case by blast
  next
    case (step out0 r ev)
    then obtain p evs where p: "is_open p" and r: "r = relay_run (relay_init p out0) evs"
      by blast
    then have "relay_step r ev = relay_run (relay_init p out0) (evs @ [ev])"
      by (simp add: relay_run_append del: relay_step.simps)
    with p show ?case by blast
  qed
next
  assume "\<exists>p evs. is_open p \<and> r = relay_run (relay_init p out0) evs"
  then show "relay_reach out0 r" by (auto intro: relay_reach_run relay_reach.start)
qed

end
