(* ===== verification/Script.thy ===== *)
theory Script
  imports Fetcher Payload Relay
begin

text \<open>
  The whole of \<^verbatim>\<open>src/agps.py\<close> as one function: the fetch phase (lines 4--20), the
  payload split (22--24), the serial uplink (26--35) and the relay loop (37--48), run in
  this order, an uncaught exception ending the script where it is raised.  The
  result is \<open>None\<close> when the script blocks for ever in the receive loop or the drain
  loop; otherwise the outcome, the final socket and port, and the console.  The relay is
  observed after a finite prefix \<open>evs\<close> of its reads.
\<close>

text \<open>
  How the script ends: an uncaught exception, a normal exit after the relay loop, or
  still relaying after the reads observed.
\<close>
datatype outcome = Raised py_error | Exited | Relaying

definition agps_main ::
  "socket \<Rightarrow> serial \<Rightarrow> read_result list \<Rightarrow> (outcome \<times> socket \<times> serial \<times> console) option" where
  "agps_main s p evs =
     (case agps_fetch s [] of
        None \<Rightarrow> None
      | Some (Inl e, s1, out1) \<Rightarrow> Some (Raised e, s1, p, out1)
      | Some (Inr data, s1, out1) \<Rightarrow>
          (case extract_binary data of
             Inl e \<Rightarrow> Some (Raised e, s1, p, out1)
           | Inr binary \<Rightarrow>
               (case serial_uplink binary p out1 of
                  None \<Rightarrow> None
                | Some (Inl e, p1, out2) \<Rightarrow> Some (Raised e, s1, p1, out2)
                | Some (Inr _, p1, out2) \<Rightarrow>
                    (let r = relay_run (relay_init p1 out2) evs
                     in Some (if running r then Relaying else Exited, s1, ser r, out r)))))"

subsection \<open>Conditions on the environment\<close>

text \<open>
  The server closes the connection at the \<open>j\<close>-th \<^verbatim>\<open>recv\<close>, every earlier call
  having returned data, and no segment is longer than the buffer.
\<close>
definition server_closes_at :: "socket \<Rightarrow> nat \<Rightarrow> bool" where
  "server_closes_at s j \<longleftrightarrow>
     nrecv s \<le> j \<and> segments s j = [] \<and> (\<forall>k. nrecv s \<le> k \<and> k < j \<longrightarrow> segments s k \<noteq> []) \<and>
     (\<forall>k. length (segments s k) \<le> recv_bufsize)"

text \<open>The reply the server sends before closing.\<close>
definition reply :: "socket \<Rightarrow> nat \<Rightarrow> bytes" where
  "reply s j = concat (map (segments s) [nrecv s..<j])"

text \<open>The receiver pauses at poll \<open>i\<close>, having sent data at every poll since the first.\<close>
definition line_quiet_at :: "serial \<Rightarrow> nat \<Rightarrow> bool" where
  "line_quiet_at p i \<longleftrightarrow>
     tick p < i \<and> line p i = [] \<and> (\<forall>k. tick p < k \<and> k < i \<longrightarrow> line p k \<noteq> [])"

text \<open>The six progress messages of lines 7--35.\<close>
definition progress :: console where
  "progress =
     [''Connecting to u-blox'', ''Connection established'', ''Sending the request'',
      ''Waiting for free line'', ''Writing AGPS data'', ''Done'']"

subsection \<open>The script phase by phase\<close>

lemma agps_main_fetched:
  assumes "reachable s address port" and "server_closes_at s j"
  shows "agps_main s p evs =
     (let s1 = s\<lparr>peer := Some (address, port), sent := sent s @ take (accept_limit s) request,
                 nrecv := Suc j\<rparr>;
          out1 = [''Connecting to u-blox'', ''Connection established'', ''Sending the request'']
      in case extract_binary (reply s j) of
           Inl e \<Rightarrow> Some (Raised e, s1, p, out1)
         | Inr binary \<Rightarrow>
             (case serial_uplink binary p out1 of
                None \<Rightarrow> None
              | Some (Inl e, p1, out2) \<Rightarrow> Some (Raised e, s1, p1, out2)
              | Some (Inr _, p1, out2) \<Rightarrow>
                  (let r = relay_run (relay_init p1 out2) evs
                   in Some (if running r then Relaying else Exited, s1, ser r, out r))))"
  using agps_fetch_ok [of s j "[]"] assms
  by (simp add: agps_main_def server_closes_at_def reply_def Let_def)

lemma agps_main_uplinked:
  assumes "reachable s address port" and "server_closes_at s j"
    and "\<not> sublist header_delim (h @ butlast header_delim)"
    and "reply s j = h @ header_delim @ binary"
    and "device_ok p device" and "line_quiet_at p i"
  shows "\<exists>s1 p1. agps_main s p evs =
            (let r = relay_run (relay_init p1 progress) evs
             in Some (if running r then Relaying else Exited, s1, ser r, out r)) \<and>
          sent s1 = sent s @ take (accept_limit s) request \<and>
          written p1 = written p @ binary \<and> inbuf p1 = [] \<and> is_open p1"
proof -
  let ?s1 = "s\<lparr>peer := Some (address, port), sent := sent s @ take (accept_limit s) request,
               nrecv := Suc j\<rparr>"
  let ?p1 = "p\<lparr>is_open := True, dev := device, baud := baudrate, inbuf := [],
               tick := Suc (if inbuf p @ line p (tick p) = [] then tick p else i),
               written := written p @ binary\<rparr>"
  have q: "tick p < i" "line p i = []" "\<forall>k. tick p < k \<and> k < i \<longrightarrow> line p k \<noteq> []"
    using assms(6) by (simp_all add: line_quiet_at_def)
  have eq: "agps_main s p evs =
      (let r = relay_run (relay_init ?p1 progress) evs
       in Some (if running r then Relaying else Exited, ?s1, ser r, out r))"
    using agps_main_fetched [OF assms(1,2), of p evs] extract_binary_after [OF assms(3), of binary]
      serial_uplink_exact [OF assms(5) q, of binary
        "[''Connecting to u-blox'', ''Connection established'', ''Sending the request'']"]
      assms(4)
    by (simp add: progress_def Let_def)
  have "sent ?s1 = sent s @ take (accept_limit s) request" "written ?p1 = written p @ binary"
    "inbuf ?p1 = []" "is_open ?p1" by simp_all
  with eq show ?thesis by blast
qed

end
