(* ===== verification/Spec2Isabelle.thy ===== *)
theory Spec2Isabelle
  imports Script
begin

text \<open>
  A verification development for \<^verbatim>\<open>src/agps.py\<close>, a 47-line Python 2 script that
  fetches AGPS data from the u-blox server, writes it to a GPS receiver on a serial
  port and then relays the receiver's \<^verbatim>\<open>$GPGGA\<close> sentences to the console.

  \<^bold>\<open>The program.\<close>  Four phases run once each, in order, sharing only values:
  the fetcher (lines 4--20) produces the reply \<^verbatim>\<open>data\<close>; the split (22--24)
  turns it into \<^verbatim>\<open>binary\<close>; the uplink (26--35) opens the port, drains it and
  writes \<^verbatim>\<open>binary\<close>; the relay (37--48) reads the same port until Ctrl-C.  Every
  phase prints progress lines, and an uncaught exception ends the script where it is
  raised.

  \<^bold>\<open>Theories and how they correspond to the code.\<close>
  \<^item> \<open>Prelude\<close>: \<open>bytes\<close> (Python 2 \<^verbatim>\<open>str\<close> as \<open>char list\<close>), the console
    as the list of printed lines and \<open>py_print\<close> for every \<^verbatim>\<open>print\<close>, the
    uncaught exceptions \<open>py_error\<close>, and list lemmas shared by the components.
  \<^item> \<open>PyStr\<close>: \<^verbatim>\<open>str.index\<close> (\<open>find_from\<close>, \<open>py_index\<close>), \<^verbatim>\<open>startswith\<close>
    and \<^verbatim>\<open>strip\<close> as CPython computes them; \<open>split_on\<close> for the framing
    specification.  Lemmas: \<open>py_index\<close> finds the first occurrence or raises
    \<^verbatim>\<open>ValueError\<close> and agrees with the reference scan \<open>first_match\<close>;
    \<open>strip\<close> removes exactly the surrounding whitespace and is idempotent.
  \<^item> \<open>Fetcher\<close> (lines 4--20): the record \<open>socket\<close> is the socket with the network
    behind it (\<open>reachable\<close>, \<open>accept_limit\<close>, \<open>segments\<close> are the environment;
    \<open>peer\<close>, \<open>sent\<close>, \<open>nrecv\<close> the state); \<open>sock_connect\<close>,
    \<open>sock_send\<close>, \<open>sock_recv\<close> are the three calls, \<open>recv_loop\<close> the
    \<^verbatim>\<open>while buffer\<close> loop and \<open>agps_fetch\<close> the phase.  \<open>segments i\<close> is
    the chunk the \<open>i\<close>-th \<^verbatim>\<open>recv(1024)\<close> returns; every TCP delivery is a
    stream of such chunks of at most 1024 bytes, and the theorems on the reply assume
    it (\<open>sock_recv\<close> drops the excess of a longer segment, which the kernel would
    keep for the next call).  The receive loop reads only \<open>segments\<close> and
    \<open>nrecv\<close> (\<open>recv_loop_send_frame\<close>), which is why the fetch does not depend on
    what \<^verbatim>\<open>send\<close> accepted.
  \<^item> \<open>Payload\<close> (lines 22--24): \<open>extract_binary\<close>; its lemmas characterise the
    result completely (payload after the first \<^verbatim>\<open>\r\n\r\n\<close>, or \<^verbatim>\<open>ValueError\<close>).
  \<^item> \<open>Serial\<close> (lines 26--35): the record \<open>serial\<close> is the pyserial object with the
    device behind it (\<open>device_ok\<close> and \<open>line\<close> are the environment); \<open>serial_open\<close>,
    \<open>in_waiting\<close>, \<open>ser_read\<close>, \<open>ser_write\<close>, \<open>ser_close\<close> are the calls,
    \<open>drain_loop\<close> the \<^verbatim>\<open>while drainer\<close> loop and \<open>serial_uplink\<close> the phase.
  \<^item> \<open>Relay\<close> (lines 37--48): the record \<open>relay\<close> (port, \<^verbatim>\<open>message\<close>, the loop
    flag, the console); \<open>relay_step\<close> is one iteration with the outcome of its
    \<^verbatim>\<open>ser.read()\<close> (a byte, no data, or \<^verbatim>\<open>KeyboardInterrupt\<close>), \<open>relay_run\<close>
    runs a finite prefix of reads, \<open>relay_reach\<close> is the inductive set of reachable
    states.  The specification \<open>relay_frames\<close>/\<open>gpgga_lines\<close> cuts the stream
    before each \<^verbatim>\<open>$\<close>; the relay refines it.
  \<^item> \<open>Script\<close>: \<open>agps_main\<close> composes the four phases as the script does, and the
    predicates \<open>server_closes_at\<close>, \<open>line_quiet_at\<close> name the environments in
    which the script gets through.

  \<^bold>\<open>Loops that may not end.\<close>  The receive loop blocks until the server closes the
  connection and the drain loop until the receiver pauses; both are
  \<^theory_text>\<open>partial_function (option)\<close>, \<open>None\<close> meaning the script never leaves them.
  No fuel or bound is chosen: the lemmas prove that each loop returns exactly when the
  environment closes or pauses (\<open>recv_loop_live\<close>, \<open>drain_live\<close>) and what it returns
  then.  The relay loop never ends by itself; it is modelled by its finite prefixes, so
  its properties hold after every number of reads.

  \<^bold>\<open>Properties.\<close>  The payload split is characterised exactly, with its error
  (C1--C3); the relay refines the framing specification, keeps its framing invariant,
  handles Ctrl-C and prints only stripped \<^verbatim>\<open>$GPGGA\<close> lines (C4--C7); the whole
  script, composed here, writes exactly the payload and relays, stops on each of its
  three errors with the right exception and output, and blocks when the server never
  closes (C8--C13); then the fetcher: what the receive loop returns, when it returns,
  and that the fetch ignores the count \<^verbatim>\<open>send\<close> returns (C14--C16); the drain
  and the uplink (C17--C19); and the remaining relay facts (C20--C21).

  \<^bold>\<open>Not modelled.\<close>  The socket, DNS and pyserial libraries are not modelled
  themselves: what they return is the environment part of the \<open>socket\<close> and
  \<open>serial\<close> records (which hosts connect, how many bytes \<^verbatim>\<open>send\<close> accepts, the
  segments \<^verbatim>\<open>recv\<close> returns, which devices open, when bytes arrive on the line).
  The bytes the relay reads are given as its read outcomes, not taken from the
  \<open>line\<close> stream of the drain, and a Ctrl-C is modelled as the outcome of a
  read, where the relay spends its time blocked (not during a \<^verbatim>\<open>print\<close>).  The 9600 baud rate and the device path are recorded,
  not interpreted.  Exceptions other than the three modelled ones (a failing
  \<^verbatim>\<open>send\<close>, a read error in the relay) are not modelled.

  \<^bold>\<open>Plan for the development.\<close>  Modelled so far, in order of importance: the
  payload split, the relay, the composed script, the two blocking loops and the
  string primitives.  Next: (1) take the relay's bytes from the port's \<open>line\<close>
  stream after the drain, with the blocking single-byte read as a
  \<^theory_text>\<open>partial_function (option)\<close>, so that the drain and the relay share one
  model of the line; (2) the drain's poll counts as a sequence and the specification's
  statement that the bytes discarded are their sum; (3) the fatal paths not yet
  modelled (\<^verbatim>\<open>socket.error\<close> from \<^verbatim>\<open>send\<close>/\<^verbatim>\<open>recv\<close>, a failing
  serial read).
\<close>

section \<open>Properties of the whole script\<close>

text \<open>
  C8: end to end.  When the server answers with a header, the first blank line and
  the payload and then closes, the device opens and the receiver pauses once, the
  script sends the request, writes exactly the payload to the receiver, prints its six
  progress messages and then the \<^verbatim>\<open>$GPGGA\<close> lines of what the receiver sends, and
  keeps relaying.
\<close>
theorem agps_end_to_end:
  assumes "reachable s address port" and "server_closes_at s j"
    and "reply s j = h @ header_delim @ binary"
    and "\<not> sublist header_delim (h @ butlast header_delim)"
    and "device_ok p device" and "line_quiet_at p i"
  shows "\<exists>s' p'. agps_main s p (map Byte bs) = Some (Relaying, s', p', progress @ gpgga_lines bs) \<and>
           sent s' = sent s @ take (accept_limit s) request \<and>
           written p' = written p @ binary \<and> is_open p'"
proof -
  obtain s1 p1 where main: "agps_main s p (map Byte bs) =
      (let r = relay_run (relay_init p1 progress) (map Byte bs)
       in Some (if running r then Relaying else Exited, s1, ser r, out r))"
    and facts: "sent s1 = sent s @ take (accept_limit s) request" "written p1 = written p @ binary"
      "is_open p1"
    using agps_main_uplinked [OF assms(1,2,4,3,5,6)] by blast
  have "relay_run (relay_init p1 progress) (map Byte bs) =
          \<lparr>ser = p1, message = last (relay_frames bs), running = True,
           out = progress @ gpgga_lines bs\<rparr>"
    using relay_run_bytes [of "relay_init p1 progress" bs] by (simp add: relay_init_def)
  with main facts show ?thesis by simp
qed

theorem agps_end_to_end_witness:
  "\<exists>s' p'. agps_main \<lparr>reachable = (\<lambda>_ _. True), accept_limit = 100,
      segments = (\<lambda>k. if k = 0 then ''HDR'' @ header_delim @ ''PAY'' else []),
      peer = None, sent = [], nrecv = 0\<rparr> \<lparr>device_ok = (\<lambda>_. True), line = (\<lambda>k. if k < 2 then ''x'' else []), tick = 0,
      is_open = False, dev = [], baud = 0, inbuf = [], written = []\<rparr> (map Byte ''$GPGGA,1$'') =
       Some (Relaying, s', p', progress @ [''$GPGGA,1'']) \<and>
     sent s' = request \<and> written p' = ''PAY'' \<and> is_open p'"
proof -
  have h1: "reachable \<lparr>reachable = (\<lambda>_ _. True), accept_limit = 100,
      segments = (\<lambda>k. if k = 0 then ''HDR'' @ header_delim @ ''PAY'' else []),
      peer = None, sent = [], nrecv = 0\<rparr> address port" by simp
  have h2: "server_closes_at \<lparr>reachable = (\<lambda>_ _. True), accept_limit = 100,
      segments = (\<lambda>k. if k = 0 then ''HDR'' @ header_delim @ ''PAY'' else []),
      peer = None, sent = [], nrecv = 0\<rparr> 1"
    by (simp add: server_closes_at_def recv_bufsize_def header_delim_def)
  have h3: "reply \<lparr>reachable = (\<lambda>_ _. True), accept_limit = 100,
      segments = (\<lambda>k. if k = 0 then ''HDR'' @ header_delim @ ''PAY'' else []),
      peer = None, sent = [], nrecv = 0\<rparr> 1 = ''HDR'' @ header_delim @ ''PAY''"
    by (simp add: reply_def)
  have h4: "\<not> sublist header_delim (''HDR'' @ butlast header_delim)"
    by (simp add: header_delim_def sublist_code)
  have h5: "device_ok \<lparr>device_ok = (\<lambda>_. True), line = (\<lambda>k. if k < 2 then ''x'' else []), tick = 0,
      is_open = False, dev = [], baud = 0, inbuf = [], written = []\<rparr> device" by simp
  have h6: "line_quiet_at \<lparr>device_ok = (\<lambda>_. True), line = (\<lambda>k. if k < 2 then ''x'' else []), tick = 0,
      is_open = False, dev = [], baud = 0, inbuf = [], written = []\<rparr> 2"
    by (auto simp: line_quiet_at_def)
  have g: "gpgga_lines ''$GPGGA,1$'' = [''$GPGGA,1'']"
    by (simp add: gpgga_lines_def relay_frames_def startswith_def strip_def py_isspace_def)
  show ?thesis
    using agps_end_to_end [OF h1 h2 h3 h4 h5 h6, of "''$GPGGA,1$''"] g
    by (simp add: request_def)
qed

text \<open>
  C9: Ctrl-C while relaying: after the same successful start, an interrupt during a
  read ends the script normally with the port closed, the payload written and the
  \<^verbatim>\<open>$GPGGA\<close> lines of the bytes read before it on the console.
\<close>
theorem agps_interrupt:
  assumes "reachable s address port" and "server_closes_at s j"
    and "reply s j = h @ header_delim @ binary"
    and "\<not> sublist header_delim (h @ butlast header_delim)"
    and "device_ok p device" and "line_quiet_at p i"
  shows "\<exists>s' p'. agps_main s p (map Byte bs @ Interrupt # evs) =
             Some (Exited, s', p', progress @ gpgga_lines bs) \<and>
           written p' = written p @ binary \<and> \<not> is_open p'"
proof -
  obtain s1 p1 where main: "agps_main s p (map Byte bs @ Interrupt # evs) =
      (let r = relay_run (relay_init p1 progress) (map Byte bs @ Interrupt # evs)
       in Some (if running r then Relaying else Exited, s1, ser r, out r))"
    and facts: "written p1 = written p @ binary"
    using agps_main_uplinked [OF assms(1,2,4,3,5,6)] by blast
  have "relay_run (relay_init p1 progress) (map Byte bs @ Interrupt # evs) =
          \<lparr>ser = ser_close p1, message = last (relay_frames bs), running = False,
           out = progress @ gpgga_lines bs\<rparr>"
    using relay_run_bytes [of "relay_init p1 progress" bs]
    by (simp add: relay_init_def relay_run_append relay_run_stopped)
  with main facts show ?thesis by (simp add: ser_close_def)
qed

theorem agps_interrupt_witness:
  "\<exists>s' p'. agps_main \<lparr>reachable = (\<lambda>_ _. True), accept_limit = 100,
      segments = (\<lambda>k. if k = 0 then ''HDR'' @ header_delim @ ''PAY'' else []),
      peer = None, sent = [], nrecv = 0\<rparr> \<lparr>device_ok = (\<lambda>_. True), line = (\<lambda>k. if k < 2 then ''x'' else []), tick = 0,
      is_open = False, dev = [], baud = 0, inbuf = [], written = []\<rparr> (map Byte ''$GPGGA,1$'' @ [Interrupt, Byte CHR ''x'']) =
       Some (Exited, s', p', progress @ [''$GPGGA,1'']) \<and>
     written p' = ''PAY'' \<and> \<not> is_open p'"
proof -
  have h1: "reachable \<lparr>reachable = (\<lambda>_ _. True), accept_limit = 100,
      segments = (\<lambda>k. if k = 0 then ''HDR'' @ header_delim @ ''PAY'' else []),
      peer = None, sent = [], nrecv = 0\<rparr> address port" by simp
  have h2: "server_closes_at \<lparr>reachable = (\<lambda>_ _. True), accept_limit = 100,
      segments = (\<lambda>k. if k = 0 then ''HDR'' @ header_delim @ ''PAY'' else []),
      peer = None, sent = [], nrecv = 0\<rparr> 1"
    by (simp add: server_closes_at_def recv_bufsize_def header_delim_def)
  have h3: "reply \<lparr>reachable = (\<lambda>_ _. True), accept_limit = 100,
      segments = (\<lambda>k. if k = 0 then ''HDR'' @ header_delim @ ''PAY'' else []),
      peer = None, sent = [], nrecv = 0\<rparr> 1 = ''HDR'' @ header_delim @ ''PAY''"
    by (simp add: reply_def)
  have h4: "\<not> sublist header_delim (''HDR'' @ butlast header_delim)"
    by (simp add: header_delim_def sublist_code)
  have h5: "device_ok \<lparr>device_ok = (\<lambda>_. True), line = (\<lambda>k. if k < 2 then ''x'' else []), tick = 0,
      is_open = False, dev = [], baud = 0, inbuf = [], written = []\<rparr> device" by simp
  have h6: "line_quiet_at \<lparr>device_ok = (\<lambda>_. True), line = (\<lambda>k. if k < 2 then ''x'' else []), tick = 0,
      is_open = False, dev = [], baud = 0, inbuf = [], written = []\<rparr> 2"
    by (auto simp: line_quiet_at_def)
  have g: "gpgga_lines ''$GPGGA,1$'' = [''$GPGGA,1'']"
    by (simp add: gpgga_lines_def relay_frames_def startswith_def strip_def py_isspace_def)
  show ?thesis
    using agps_interrupt [OF h1 h2 h3 h4 h5 h6, of "''$GPGGA,1$''" "[Byte CHR ''x'']"] g
    by simp
qed

text \<open>
  C10: when the server cannot be reached, the script stops with \<^verbatim>\<open>socket.error\<close>
  after its first message, and neither the socket nor the port is used.
\<close>
theorem agps_unreachable:
  "\<not> reachable s address port \<Longrightarrow>
   agps_main s p evs = Some (Raised SocketError, s, p, [''Connecting to u-blox''])"
  by (simp add: agps_main_def agps_fetch_unreachable)

theorem agps_unreachable_witness:
  "\<not> reachable ((\<lparr>reachable = (\<lambda>_ _. True), accept_limit = 100,
      segments = (\<lambda>k. if k = 0 then ''HDR'' @ header_delim @ ''PAY'' else []),
      peer = None, sent = [], nrecv = 0\<rparr>)\<lparr>reachable := (\<lambda>_ _. False)\<rparr>) address port \<and>
   agps_main ((\<lparr>reachable = (\<lambda>_ _. True), accept_limit = 100,
      segments = (\<lambda>k. if k = 0 then ''HDR'' @ header_delim @ ''PAY'' else []),
      peer = None, sent = [], nrecv = 0\<rparr>)\<lparr>reachable := (\<lambda>_ _. False)\<rparr>) \<lparr>device_ok = (\<lambda>_. True), line = (\<lambda>k. if k < 2 then ''x'' else []), tick = 0,
      is_open = False, dev = [], baud = 0, inbuf = [], written = []\<rparr> [] =
     Some (Raised SocketError, ((\<lparr>reachable = (\<lambda>_ _. True), accept_limit = 100,
      segments = (\<lambda>k. if k = 0 then ''HDR'' @ header_delim @ ''PAY'' else []),
      peer = None, sent = [], nrecv = 0\<rparr>)\<lparr>reachable := (\<lambda>_ _. False)\<rparr>), \<lparr>device_ok = (\<lambda>_. True), line = (\<lambda>k. if k < 2 then ''x'' else []), tick = 0,
      is_open = False, dev = [], baud = 0, inbuf = [], written = []\<rparr>,
       [''Connecting to u-blox''])"
  using agps_unreachable [of "((\<lparr>reachable = (\<lambda>_ _. True), accept_limit = 100,
      segments = (\<lambda>k. if k = 0 then ''HDR'' @ header_delim @ ''PAY'' else []),
      peer = None, sent = [], nrecv = 0\<rparr>)\<lparr>reachable := (\<lambda>_ _. False)\<rparr>)" "\<lparr>device_ok = (\<lambda>_. True), line = (\<lambda>k. if k < 2 then ''x'' else []), tick = 0,
      is_open = False, dev = [], baud = 0, inbuf = [], written = []\<rparr>" "[]"]
  by simp

text \<open>
  C11: a reply without a blank line stops the script with \<^verbatim>\<open>ValueError\<close> after the
  three network messages; the serial port is never opened or written.
\<close>
theorem agps_no_delimiter:
  assumes "reachable s address port" and "server_closes_at s j"
    and "\<not> sublist header_delim (reply s j)"
  shows "\<exists>s'. agps_main s p evs = Some (Raised ValueError, s', p, take 3 progress)"
  using agps_main_fetched [OF assms(1,2), of p evs] extract_binary_no_delim [OF assms(3)]
  by (simp add: Let_def progress_def)

theorem agps_no_delimiter_witness:
  "\<exists>s'. agps_main ((\<lparr>reachable = (\<lambda>_ _. True), accept_limit = 100,
      segments = (\<lambda>k. if k = 0 then ''HDR'' @ header_delim @ ''PAY'' else []),
      peer = None, sent = [], nrecv = 0\<rparr>)\<lparr>segments := (\<lambda>k. if k = 0 then ''HDR'' else [])\<rparr>) \<lparr>device_ok = (\<lambda>_. True), line = (\<lambda>k. if k < 2 then ''x'' else []), tick = 0,
      is_open = False, dev = [], baud = 0, inbuf = [], written = []\<rparr> [] =
     Some (Raised ValueError, s', \<lparr>device_ok = (\<lambda>_. True), line = (\<lambda>k. if k < 2 then ''x'' else []), tick = 0,
      is_open = False, dev = [], baud = 0, inbuf = [], written = []\<rparr>, take 3 progress)"
proof -
  have h1: "reachable ((\<lparr>reachable = (\<lambda>_ _. True), accept_limit = 100,
      segments = (\<lambda>k. if k = 0 then ''HDR'' @ header_delim @ ''PAY'' else []),
      peer = None, sent = [], nrecv = 0\<rparr>)\<lparr>segments := (\<lambda>k. if k = 0 then ''HDR'' else [])\<rparr>) address port"
    by simp
  have h2: "server_closes_at ((\<lparr>reachable = (\<lambda>_ _. True), accept_limit = 100,
      segments = (\<lambda>k. if k = 0 then ''HDR'' @ header_delim @ ''PAY'' else []),
      peer = None, sent = [], nrecv = 0\<rparr>)\<lparr>segments := (\<lambda>k. if k = 0 then ''HDR'' else [])\<rparr>) 1"
    by (simp add: server_closes_at_def recv_bufsize_def)
  have h3: "\<not> sublist header_delim (reply ((\<lparr>reachable = (\<lambda>_ _. True), accept_limit = 100,
      segments = (\<lambda>k. if k = 0 then ''HDR'' @ header_delim @ ''PAY'' else []),
      peer = None, sent = [], nrecv = 0\<rparr>)\<lparr>segments := (\<lambda>k. if k = 0 then ''HDR'' else [])\<rparr>) 1)"
    by (simp add: reply_def header_delim_def sublist_code)
  show ?thesis using agps_no_delimiter [OF h1 h2 h3] by simp
qed

text \<open>
  C12: when the device cannot be opened the script stops with
  \<^verbatim>\<open>SerialException\<close> after the three network messages, and nothing is written.
\<close>
theorem agps_no_device:
  assumes "reachable s address port" and "server_closes_at s j"
    and "reply s j = h @ header_delim @ binary"
    and "\<not> sublist header_delim (h @ butlast header_delim)"
    and "\<not> device_ok p device"
  shows "\<exists>s'. agps_main s p evs = Some (Raised SerialException, s', p, take 3 progress)"
  using agps_main_fetched [OF assms(1,2), of p evs] extract_binary_after [OF assms(4), of binary]
    serial_uplink_fails [OF assms(5)] assms(3)
  by (simp add: Let_def progress_def)

theorem agps_no_device_witness:
  "\<exists>s'. agps_main \<lparr>reachable = (\<lambda>_ _. True), accept_limit = 100,
      segments = (\<lambda>k. if k = 0 then ''HDR'' @ header_delim @ ''PAY'' else []),
      peer = None, sent = [], nrecv = 0\<rparr> ((\<lparr>device_ok = (\<lambda>_. True), line = (\<lambda>k. if k < 2 then ''x'' else []), tick = 0,
      is_open = False, dev = [], baud = 0, inbuf = [], written = []\<rparr>)\<lparr>device_ok := (\<lambda>_. False)\<rparr>) [] =
     Some (Raised SerialException, s', ((\<lparr>device_ok = (\<lambda>_. True), line = (\<lambda>k. if k < 2 then ''x'' else []), tick = 0,
      is_open = False, dev = [], baud = 0, inbuf = [], written = []\<rparr>)\<lparr>device_ok := (\<lambda>_. False)\<rparr>), take 3 progress)"
proof -
  have h1: "reachable \<lparr>reachable = (\<lambda>_ _. True), accept_limit = 100,
      segments = (\<lambda>k. if k = 0 then ''HDR'' @ header_delim @ ''PAY'' else []),
      peer = None, sent = [], nrecv = 0\<rparr> address port" by simp
  have h2: "server_closes_at \<lparr>reachable = (\<lambda>_ _. True), accept_limit = 100,
      segments = (\<lambda>k. if k = 0 then ''HDR'' @ header_delim @ ''PAY'' else []),
      peer = None, sent = [], nrecv = 0\<rparr> 1"
    by (simp add: server_closes_at_def recv_bufsize_def header_delim_def)
  have h3: "reply \<lparr>reachable = (\<lambda>_ _. True), accept_limit = 100,
      segments = (\<lambda>k. if k = 0 then ''HDR'' @ header_delim @ ''PAY'' else []),
      peer = None, sent = [], nrecv = 0\<rparr> 1 = ''HDR'' @ header_delim @ ''PAY''"
    by (simp add: reply_def)
  have h4: "\<not> sublist header_delim (''HDR'' @ butlast header_delim)"
    by (simp add: header_delim_def sublist_code)
  have h5: "device_ok \<lparr>device_ok = (\<lambda>_. True), line = (\<lambda>k. if k < 2 then ''x'' else []), tick = 0,
      is_open = False, dev = [], baud = 0, inbuf = [], written = []\<rparr> device" by simp
  have h6: "line_quiet_at \<lparr>device_ok = (\<lambda>_. True), line = (\<lambda>k. if k < 2 then ''x'' else []), tick = 0,
      is_open = False, dev = [], baud = 0, inbuf = [], written = []\<rparr> 2"
    by (auto simp: line_quiet_at_def)
  have g: "gpgga_lines ''$GPGGA,1$'' = [''$GPGGA,1'']"
    by (simp add: gpgga_lines_def relay_frames_def startswith_def strip_def py_isspace_def)
  have h5': "\<not> device_ok ((\<lparr>device_ok = (\<lambda>_. True), line = (\<lambda>k. if k < 2 then ''x'' else []), tick = 0,
      is_open = False, dev = [], baud = 0, inbuf = [], written = []\<rparr>)\<lparr>device_ok := (\<lambda>_. False)\<rparr>) device" by simp
  show ?thesis using agps_no_device [OF h1 h2 h3 h4 h5'] by simp
qed

text \<open>
  C13: the script blocks for ever in its receive loop (the result is \<open>None\<close>) when the
  server accepts the connection but never closes it: there is no timeout.
\<close>
theorem agps_blocks:
  "reachable s address port \<Longrightarrow> \<forall>j \<ge> nrecv s. segments s j \<noteq> [] \<Longrightarrow> agps_main s p evs = None"
  using agps_fetch_blocks [of s "[]"] by (simp add: agps_main_def)

theorem agps_blocks_witness:
  "reachable \<lparr>reachable = (\<lambda>_ _. True), accept_limit = 100, segments = (\<lambda>_. ''x''),
      peer = None, sent = [], nrecv = 0\<rparr> address port \<and>
   agps_main \<lparr>reachable = (\<lambda>_ _. True), accept_limit = 100, segments = (\<lambda>_. ''x''),
      peer = None, sent = [], nrecv = 0\<rparr> \<lparr>device_ok = (\<lambda>_. True), line = (\<lambda>_. []), tick = 0,
      is_open = False, dev = [], baud = 0, inbuf = [], written = []\<rparr> [] = None"
proof -
  have h1: "reachable \<lparr>reachable = (\<lambda>_ _. True), accept_limit = 100, segments = (\<lambda>_. ''x''),
      peer = None, sent = [], nrecv = 0\<rparr> address port" by simp
  have h2: "\<forall>j \<ge> nrecv \<lparr>reachable = (\<lambda>_ _. True), accept_limit = 100, segments = (\<lambda>_. ''x''),
      peer = None, sent = [], nrecv = 0\<rparr>. segments \<lparr>reachable = (\<lambda>_ _. True), accept_limit = 100, segments = (\<lambda>_. ''x''),
      peer = None, sent = [], nrecv = 0\<rparr> j \<noteq> []" by simp
  show ?thesis using agps_blocks [OF h1 h2, of "\<lparr>device_ok = (\<lambda>_. True), line = (\<lambda>_. []), tick = 0,
      is_open = False, dev = [], baud = 0, inbuf = [], written = []\<rparr>" "[]"] h1 by simp
qed

end
